theory Spec2Isabelle
  imports Main "HOL-Library.AList"
begin

section \<open>rich\_reporter: the Reporter and the logging machinery it drives\<close>

text \<open>
  The package has one class, \<^verbatim>\<open>Reporter\<close> (\<^verbatim>\<open>rich_reporter/__init__.py\<close>).  A Reporter
  owns a dictionary of per-level counters and a Rich console, and it configures the logger
  that \<^verbatim>\<open>logging.getLogger(name)\<close> hands out: level, a \<^verbatim>\<open>RichHandler\<close>, optionally a
  \<^verbatim>\<open>FileHandler\<close>, and its own bound method \<^verbatim>\<open>_count_log_event\<close> as a logger filter.

  Python objects live in explicit stores, addressed by position: Reporter objects,
  dictionaries and consoles.  Loggers live in the name-keyed registry of the \<^verbatim>\<open>logging\<close>
  module, which is global to the process.  Every operation takes the world and returns
  the new one.
\<close>

subsection \<open>Strings\<close>

text \<open>\<^verbatim>\<open>str.lower()\<close> and \<^verbatim>\<open>str.upper()\<close>, on ASCII letters.\<close>

definition lower_char :: "char \<Rightarrow> char" where
  "lower_char c =
     (case map_of (zip ''ABCDEFGHIJKLMNOPQRSTUVWXYZ'' ''abcdefghijklmnopqrstuvwxyz'') c of
        Some d \<Rightarrow> d
      | None \<Rightarrow> c)"

definition upper_char :: "char \<Rightarrow> char" where
  "upper_char c =
     (case map_of (zip ''abcdefghijklmnopqrstuvwxyz'' ''ABCDEFGHIJKLMNOPQRSTUVWXYZ'') c of
        Some d \<Rightarrow> d
      | None \<Rightarrow> c)"

definition lower :: "string \<Rightarrow> string" where
  "lower s = map lower_char s"

definition upper :: "string \<Rightarrow> string" where
  "upper s = map upper_char s"

text \<open>\<^verbatim>\<open>str(n)\<close> for an integer: decimal digits, with a minus sign below zero.\<close>

definition digit_char :: "nat \<Rightarrow> char" where
  "digit_char n = ''0123456789'' ! (n mod 10)"

fun str_nat :: "nat \<Rightarrow> string" where
  "str_nat n = (if n < 10 then [digit_char n] else str_nat (n div 10) @ [digit_char n])"

definition str_int :: "int \<Rightarrow> string" where
  "str_int i = (if i < 0 then CHR ''-'' # str_nat (nat (- i)) else str_nat (nat i))"

subsection \<open>Levels of the logging module\<close>

definition NOTSET :: int where "NOTSET = 0"
definition DEBUG :: int where "DEBUG = 10"
definition INFO :: int where "INFO = 20"
definition WARNING :: int where "WARNING = 30"
definition ERROR :: int where "ERROR = 40"
definition CRITICAL :: int where "CRITICAL = 50"

text \<open>
  \<^verbatim>\<open>logging.getLevelName(level)\<close> for an integer level, with the table of names as the
  module ships it: a level without a name reads \<^verbatim>\<open>"Level %s" % level\<close>.
\<close>

definition getLevelName :: "int \<Rightarrow> string" where
  "getLevelName lv =
     (if lv = CRITICAL then ''CRITICAL''
      else if lv = ERROR then ''ERROR''
      else if lv = WARNING then ''WARNING''
      else if lv = INFO then ''INFO''
      else if lv = DEBUG then ''DEBUG''
      else if lv = NOTSET then ''NOTSET''
      else ''Level '' @ str_int lv)"

subsection \<open>Objects\<close>

text \<open>
  A \<^verbatim>\<open>dict\<close> keeps its keys in insertion order, and \<^verbatim>\<open>report\<close> walks
  \<^verbatim>\<open>self._stats.items()\<close> in that order: an association list.
\<close>

type_synonym dict = "(string \<times> int) list"

text \<open>
  The logger \<^verbatim>\<open>logging.getLogger(name)\<close> returns: the root logger for an empty name and
  for the name \<^verbatim>\<open>"root"\<close>, the registry's logger of that name otherwise.
\<close>

datatype lref = Root | Named string

text \<open>
  The fields of a \<^verbatim>\<open>LogRecord\<close> that the handlers and the counting filter read.
  \<open>message\<close> is \<^verbatim>\<open>record.getMessage()\<close>; \<open>asctime\<close> is the creation time as the
  file formatter prints it, supplied by the clock of the environment at each call;
  \<open>exc_text\<close> is the formatted traceback of a record made with \<^verbatim>\<open>exc_info\<close>, and \<open>None\<close>
  for a record made without.
\<close>

record LogRecord =
  rec_name :: string
  levelno :: int
  levelname :: string
  message :: string
  asctime :: string
  exc_text :: "string option"

text \<open>
  The two handlers a Reporter creates.  A \<^verbatim>\<open>RichHandler\<close> holds the console it renders
  on; a \<^verbatim>\<open>FileHandler\<close> holds the file its stream is open on.
\<close>

datatype Handler =
    RichHandler nat int bool bool
  | FileHandler string int

fun handler_level :: "Handler \<Rightarrow> int" where
  "handler_level (RichHandler c lv show_time show_path) = lv"
| "handler_level (FileHandler p lv) = lv"

text \<open>
  A \<^verbatim>\<open>logging.Logger\<close>: level, handlers, and filters.  Every filter in this program is
  the bound method \<^verbatim>\<open>_count_log_event\<close> of a Reporter, so a filter is the address of
  that Reporter.  \<^verbatim>\<open>propagate\<close> and \<^verbatim>\<open>disabled\<close> keep their defaults (the package never
  sets them), as does \<^verbatim>\<open>logging.disable\<close>.
\<close>

record Logger =
  level :: int
  handlers :: "Handler list"
  filters :: "nat list"

text \<open>What a console was asked to print, in order.\<close>

datatype renderable =
    LogRender LogRecord bool bool
  | Panel string "(string \<times> string) list" "(string \<times> string) list"
  | Plain string

record Reporter =
  name :: string
  console :: nat
  stats :: nat
  logger :: lref

datatype exn = ValueError string | OSError string | Raised string

text \<open>
  The world: the root logger and \<^verbatim>\<open>Manager.loggerDict\<close>; the stores of Reporter objects,
  dictionaries and consoles; and the file system.  \<open>file_of\<close> gives the file a path names:
  \<^verbatim>\<open>FileHandler\<close> opens \<^verbatim>\<open>os.path.abspath(filename)\<close>, and which paths lead to one file
  (the current directory, links) is for the file system to say, so it is a parameter of the
  world.  \<open>files\<close> has the text of each file so far, and \<open>unopenable\<close> the files that cannot
  be opened for appending.
\<close>

record world =
  root :: Logger
  loggerDict :: "(string \<times> Logger) list"
  reporters :: "Reporter list"
  dicts :: "dict list"
  consoles :: "renderable list list"
  files :: "string \<rightharpoonup> string"
  unopenable :: "string list"
  file_of :: "string \<Rightarrow> string"

text \<open>
  \<^verbatim>\<open>os.path.abspath\<close> on a POSIX system, for a given current directory:
  \<^verbatim>\<open>normpath(join(os.getcwd(), path))\<close>, where \<^verbatim>\<open>normpath\<close> drops empty and \<^verbatim>\<open>.\<close>
  components, lets \<^verbatim>\<open>..\<close> remove the component before it, and keeps one leading slash, or
  two when the path starts with exactly two.
\<close>

fun split_sep :: "string \<Rightarrow> string list" where
  "split_sep [] = [[]]"
| "split_sep (c # cs) =
     (if c = CHR ''/'' then [] # split_sep cs
      else (case split_sep cs of x # xs \<Rightarrow> (c # x) # xs | [] \<Rightarrow> [[c]]))"

fun join_sep :: "string list \<Rightarrow> string" where
  "join_sep [] = []"
| "join_sep [x] = x"
| "join_sep (x # y # ys) = x @ ''/'' @ join_sep (y # ys)"

definition norm_step :: "bool \<Rightarrow> string \<Rightarrow> string list \<Rightarrow> string list" where
  "norm_step initial_slashes part new_comps =
     (if part = [] \<or> part = ''.'' then new_comps
      else if part \<noteq> ''..'' \<or> (\<not> initial_slashes \<and> new_comps = []) \<or>
              (new_comps \<noteq> [] \<and> last new_comps = ''..'')
           then new_comps @ [part]
      else if new_comps \<noteq> [] then butlast new_comps
      else new_comps)"

definition normpath :: "string \<Rightarrow> string" where
  "normpath path =
     (if path = [] then ''.''
      else
        (let initial_slashes =
               (if take 1 path = ''/''
                then (if take 2 path = ''//'' \<and> take 3 path \<noteq> ''///'' then 2 else 1)
                else (0 :: nat));
             comps = fold (norm_step (initial_slashes \<noteq> 0)) (split_sep path) [];
             p = replicate initial_slashes (CHR ''/'') @ join_sep comps
         in if p = [] then ''.'' else p))"

definition path_join :: "string \<Rightarrow> string \<Rightarrow> string" where
  "path_join a b =
     (if take 1 b = ''/'' then b
      else if a = [] \<or> last a = CHR ''/'' then a @ b
      else a @ ''/'' @ b)"

definition abspath :: "string \<Rightarrow> string \<Rightarrow> string" where
  "abspath cwd path = normpath (if take 1 path = ''/'' then path else path_join cwd path)"

definition new_logger :: Logger where
  "new_logger = \<lparr>level = NOTSET, handlers = [], filters = []\<rparr>"

text \<open>
  A fresh interpreter, started in the directory \<^verbatim>\<open>/home/user\<close>: only the root logger, at
  WARNING, with no handler; a path names the file at its absolute path.
\<close>

definition init_world :: world where
  "init_world =
     \<lparr>root = \<lparr>level = WARNING, handlers = [], filters = []\<rparr>, loggerDict = [],
      reporters = [], dicts = [], consoles = [], files = Map.empty, unopenable = [],
      file_of = abspath ''/home/user''\<rparr>"

subsection \<open>The logging module\<close>

definition getLogger :: "string \<Rightarrow> lref" where
  "getLogger nm = (if nm = [] \<or> nm = ''root'' then Root else Named nm)"

definition logger_name :: "lref \<Rightarrow> string" where
  "logger_name l = (case l of Root \<Rightarrow> ''root'' | Named nm \<Rightarrow> nm)"

text \<open>
  Reading a logger creates it when the registry has none of that name:
  \<^verbatim>\<open>Manager.getLogger\<close> makes a Logger at NOTSET with no handlers and no filters.
\<close>

definition get_logger :: "world \<Rightarrow> lref \<Rightarrow> Logger" where
  "get_logger w l =
     (case l of
        Root \<Rightarrow> root w
      | Named nm \<Rightarrow> (case map_of (loggerDict w) nm of Some lg \<Rightarrow> lg | None \<Rightarrow> new_logger))"

definition set_logger :: "world \<Rightarrow> lref \<Rightarrow> Logger \<Rightarrow> world" where
  "set_logger w l lg =
     (case l of
        Root \<Rightarrow> w\<lparr>root := lg\<rparr>
      | Named nm \<Rightarrow> w\<lparr>loggerDict := AList.update nm lg (loggerDict w)\<rparr>)"

definition setLevel :: "world \<Rightarrow> lref \<Rightarrow> int \<Rightarrow> world" where
  "setLevel w l lv = set_logger w l ((get_logger w l)\<lparr>level := lv\<rparr>)"

definition clear_handlers :: "world \<Rightarrow> lref \<Rightarrow> world" where
  "clear_handlers w l = set_logger w l ((get_logger w l)\<lparr>handlers := []\<rparr>)"

text \<open>
  \<^verbatim>\<open>addHandler\<close> and \<^verbatim>\<open>addFilter\<close> append unless the object is in the list already.  A
  handler is a new object each time it is created, so it is never there; a filter is the
  bound method of one Reporter, equal to itself only.
\<close>

definition addHandler :: "world \<Rightarrow> lref \<Rightarrow> Handler \<Rightarrow> world" where
  "addHandler w l h =
     (let lg = get_logger w l in set_logger w l (lg\<lparr>handlers := handlers lg @ [h]\<rparr>))"

definition addFilter :: "world \<Rightarrow> lref \<Rightarrow> nat \<Rightarrow> world" where
  "addFilter w l f =
     (let lg = get_logger w l
      in if f \<in> set (filters lg) then w
         else set_logger w l (lg\<lparr>filters := filters lg @ [f]\<rparr>))"

text \<open>
  The parent of a logger, as \<^verbatim>\<open>Manager._fixupParents\<close> finds it: the name is cut at its
  dots from the right (\<^verbatim>\<open>i = name.rfind(".")\<close>, then \<^verbatim>\<open>name.rfind(".", 0, i - 1)\<close>, while
  \<^verbatim>\<open>i > 0\<close>), and the first prefix \<^verbatim>\<open>name[:i]\<close> that is a Logger of the registry is the
  parent; the root logger when there is none.
\<close>

fun rfind :: "char \<Rightarrow> string \<Rightarrow> nat option" where
  "rfind c [] = None"
| "rfind c (x # xs) =
     (case rfind c xs of
        Some i \<Rightarrow> Some (Suc i)
      | None \<Rightarrow> if x = c then Some 0 else None)"

lemma rfind_less: "rfind c s = Some i \<Longrightarrow> i < length s"
  by (induction s arbitrary: i) (auto split: option.splits if_splits)

function prefixes_from :: "string \<Rightarrow> nat option \<Rightarrow> string list" where
  "prefixes_from nm None = []"
| "prefixes_from nm (Some i) =
     (if 0 < i then take i nm # prefixes_from nm (rfind (CHR ''.'') (take (i - 1) nm))
      else [])"
  by pat_completeness auto
termination
proof (relation "measure (\<lambda>(nm, i). case i of None \<Rightarrow> 0 | Some k \<Rightarrow> Suc k)")
  show "wf (measure (\<lambda>(nm :: string, i). case i of None \<Rightarrow> 0 | Some k \<Rightarrow> Suc k))"
    by simp
next
  fix nm :: string and i :: nat
  assume "0 < i"
  then show "((nm, rfind (CHR ''.'') (take (i - 1) nm)), (nm, Some i))
        \<in> measure (\<lambda>(nm, i). case i of None \<Rightarrow> 0 | Some k \<Rightarrow> Suc k)"
    by (auto split: option.splits dest!: rfind_less)
qed

definition candidate_parents :: "string \<Rightarrow> string list" where
  "candidate_parents nm = prefixes_from nm (rfind (CHR ''.'') nm)"

lemma prefixes_from_shorter:
  "(case i of None \<Rightarrow> True | Some k \<Rightarrow> k < length nm) \<Longrightarrow>
   p \<in> set (prefixes_from nm i) \<Longrightarrow> length p < length nm"
proof (induction nm i rule: prefixes_from.induct)
  case (1 nm)
  then show ?case by simp
next
  case (2 nm i)
  show ?case
  proof (cases "p = take i nm")
    case True
    with 2 show ?thesis by simp
  next
    case False
    with 2 have pos: "0 < i" and mem: "p \<in> set (prefixes_from nm (rfind (CHR ''.'') (take (i - 1) nm)))"
      by (auto split: if_splits)
    have "case rfind (CHR ''.'') (take (i - 1) nm) of None \<Rightarrow> True | Some k \<Rightarrow> k < length nm"
      by (auto split: option.splits dest!: rfind_less)
    with 2 pos mem show ?thesis by simp
  qed
qed

lemma candidate_parents_shorter:
  "p \<in> set (candidate_parents nm) \<Longrightarrow> length p < length nm"
  unfolding candidate_parents_def
  by (rule prefixes_from_shorter) (auto split: option.splits dest!: rfind_less)

text \<open>
  The loggers above one of a given name, nearest first, ending at the root.  The module
  keeps a parent pointer in each logger and repairs the pointers of the children when a
  logger is created after them; the chain here is the one those pointers form.  (One
  repair is skipped by \<^verbatim>\<open>Manager._fixupChildren\<close>, which compares name prefixes: a logger
  named \<^verbatim>\<open>r\<close>, \<^verbatim>\<open>ro\<close> or \<^verbatim>\<open>roo\<close> created after a child of it leaves the root logger as
  that child's parent.  The chain of the module then lacks that one logger and is
  otherwise this one, so a statement about no handler on this chain holds for the
  module's chain too.)
\<close>

function ancestors :: "world \<Rightarrow> string \<Rightarrow> lref list" where
  "ancestors w nm =
     (case find (\<lambda>p. map_of (loggerDict w) p \<noteq> None) (candidate_parents nm) of
        None \<Rightarrow> [Root]
      | Some p \<Rightarrow> Named p # ancestors w p)"
  by pat_completeness auto
termination
proof (relation "measure (\<lambda>(w, nm). length nm)")
  show "wf (measure (\<lambda>(w :: world, nm :: string). length nm))"
    by simp
next
  fix w :: world and nm p :: string
  assume "find (\<lambda>p. map_of (loggerDict w) p \<noteq> None) (candidate_parents nm) = Some p"
  then have "p \<in> set (candidate_parents nm)"
    by (auto simp: find_Some_iff)
  then show "((w, p), (w, nm)) \<in> measure (\<lambda>(w, nm). length nm)"
    by (simp add: candidate_parents_shorter)
qed

definition chain :: "world \<Rightarrow> lref \<Rightarrow> lref list" where
  "chain w l = (case l of Root \<Rightarrow> [Root] | Named nm \<Rightarrow> Named nm # ancestors w nm)"

text \<open>
  \<^verbatim>\<open>Logger.getEffectiveLevel\<close>: the first non-zero level on the way up, NOTSET when there
  is none.  \<^verbatim>\<open>Logger.isEnabledFor\<close>: false when \<^verbatim>\<open>manager.disable >= level\<close>, where
  \<^verbatim>\<open>manager.disable\<close> is 0 unless \<^verbatim>\<open>logging.disable\<close> was called; its cache is dropped at
  every \<^verbatim>\<open>setLevel\<close> and so never changes an answer.
\<close>

definition getEffectiveLevel :: "world \<Rightarrow> lref \<Rightarrow> int" where
  "getEffectiveLevel w l =
     (case find (\<lambda>a. level (get_logger w a) \<noteq> 0) (chain w l) of
        Some a \<Rightarrow> level (get_logger w a)
      | None \<Rightarrow> NOTSET)"

definition manager_disable :: int where
  "manager_disable = 0"

definition isEnabledFor :: "world \<Rightarrow> lref \<Rightarrow> int \<Rightarrow> bool" where
  "isEnabledFor w l lv =
     (if manager_disable \<ge> lv then False else lv \<ge> getEffectiveLevel w l)"

subsection \<open>Sinks\<close>

definition console_print :: "world \<Rightarrow> nat \<Rightarrow> renderable \<Rightarrow> world" where
  "console_print w c x = w\<lparr>consoles := (consoles w)[c := consoles w ! c @ [x]]\<rparr>"

text \<open>
  The file formatter of the Reporter:
  \<^verbatim>\<open>"%(asctime)s - %(name)s - %(levelname)s - %(message)s"\<close>.  \<^verbatim>\<open>Formatter.format\<close> puts
  the traceback text, when the record has one that is not empty, after the formatted
  message, on a new line (\<^verbatim>\<open>if s[-1:] != "\n": s = s + "\n"\<close>).
\<close>

definition format_line :: "LogRecord \<Rightarrow> string" where
  "format_line r =
     (let s = asctime r @ '' - '' @ rec_name r @ '' - '' @ levelname r @ '' - '' @ message r
      in case exc_text r of
           None \<Rightarrow> s
         | Some t \<Rightarrow>
             if t = [] then s
             else (if last s = CHR 0x0A then s else s @ [CHR 0x0A]) @ t)"

text \<open>
  \<^verbatim>\<open>emit\<close>: a RichHandler prints the rendered record on its console; a FileHandler
  writes the formatted record and the terminator, a newline, at the end of its stream.
\<close>

fun emit :: "world \<Rightarrow> Handler \<Rightarrow> LogRecord \<Rightarrow> world" where
  "emit w (RichHandler c lv show_time show_path) r =
     console_print w c (LogRender r show_time show_path)"
| "emit w (FileHandler p lv) r =
     w\<lparr>files := (files w)(p \<mapsto>
        (case files w p of Some s \<Rightarrow> s | None \<Rightarrow> []) @ format_line r @ [CHR 0x0A])\<rparr>"

text \<open>
  \<^verbatim>\<open>Logger.callHandlers\<close>: every handler of the logger and of the loggers above it gets
  the record when \<^verbatim>\<open>record.levelno >= hdlr.level\<close>.  (With no handler at all the module
  falls back on its last-resort handler, which writes on \<^verbatim>\<open>stderr\<close>, outside this world.)
\<close>

definition reachable_handlers :: "world \<Rightarrow> lref \<Rightarrow> Handler list" where
  "reachable_handlers w l = concat (map (\<lambda>a. handlers (get_logger w a)) (chain w l))"

definition deliver :: "LogRecord \<Rightarrow> Handler \<Rightarrow> world \<Rightarrow> world" where
  "deliver r h w = (if levelno r \<ge> handler_level h then emit w h r else w)"

definition callHandlers :: "world \<Rightarrow> lref \<Rightarrow> LogRecord \<Rightarrow> world" where
  "callHandlers w l r = fold (deliver r) (reachable_handlers w l) w"

subsection \<open>The Reporter\<close>

definition new_console :: "world \<Rightarrow> nat \<times> world" where
  "new_console w = (length (consoles w), w\<lparr>consoles := consoles w @ [[]]\<rparr>)"

definition new_dict :: "world \<Rightarrow> dict \<Rightarrow> nat \<times> world" where
  "new_dict w d = (length (dicts w), w\<lparr>dicts := dicts w @ [d]\<rparr>)"

definition zero_stats :: dict where
  "zero_stats =
     [(''debug'', 0), (''info'', 0), (''warning'', 0), (''error'', 0), (''critical'', 0)]"

text \<open>
  \<^verbatim>\<open>logging.FileHandler(file_path)\<close>: mode \<^verbatim>\<open>'a'\<close>, no delay, so the stream is opened at
  once: the file the path names is created empty when it is absent and left as it is
  otherwise.  The handler writes to that file from then on.
\<close>

definition open_append :: "world \<Rightarrow> string \<Rightarrow> exn + world" where
  "open_append w p =
     (let f = file_of w p
      in if f \<in> set (unopenable w) then Inl (OSError p)
         else Inr (w\<lparr>files := (files w)(f \<mapsto> (case files w f of Some s \<Rightarrow> s | None \<Rightarrow> []))\<rparr>))"

text \<open>\<^verbatim>\<open>console or Console()\<close>: the console given, a new one when none is.\<close>

definition console_or_new :: "world \<Rightarrow> nat option \<Rightarrow> nat \<times> world" where
  "console_or_new w con = (case con of Some c \<Rightarrow> (c, w) | None \<Rightarrow> new_console w)"

text \<open>
  \<^verbatim>\<open>Reporter.__init__\<close>.  The new object is stored first, as Python allocates \<open>self\<close>
  before the body runs; its address is the result when the body returns.  A raise leaves
  the world as the statements before it made it.
\<close>

definition init ::
  "world \<Rightarrow> string \<Rightarrow> int \<Rightarrow> nat option \<Rightarrow> bool \<Rightarrow> bool \<Rightarrow> bool \<Rightarrow> string option
     \<Rightarrow> (exn + nat) \<times> world" where
  "init w nm lv con show_time show_path enable_file_handler file_path =
     (let (c, w1) = console_or_new w con;
          (d, w2) = new_dict w1 zero_stats;
          self = length (reporters w2);
          l = getLogger nm;
          w3 = w2\<lparr>reporters := reporters w2 @ [\<lparr>name = nm, console = c, stats = d, logger = l\<rparr>]\<rparr>;
          w4 = setLevel w3 l lv;
          w5 = clear_handlers w4 l;
          w6 = addHandler w5 l (RichHandler c lv show_time show_path)
      in if enable_file_handler then
           (case file_path of
              None \<Rightarrow>
                (Inl (ValueError ''file_path must be provided when enable_file_handler=True''), w6)
            | Some p \<Rightarrow>
                if p = [] then
                  (Inl (ValueError ''file_path must be provided when enable_file_handler=True''), w6)
                else
                  (case open_append w6 p of
                     Inl e \<Rightarrow> (Inl e, w6)
                   | Inr w7 \<Rightarrow>
                       (Inr self,
                        addFilter (addHandler w7 l (FileHandler (file_of w7 p) lv)) l self)))
         else (Inr self, addFilter w6 l self))"

definition get_reporter ::
  "world \<Rightarrow> string \<Rightarrow> int \<Rightarrow> nat option \<Rightarrow> bool \<Rightarrow> bool \<Rightarrow> bool \<Rightarrow> string option
     \<Rightarrow> (exn + nat) \<times> world" where
  "get_reporter w nm lv con show_time show_path enable_file_handler file_path =
     init w nm lv con show_time show_path enable_file_handler file_path"

text \<open>\<^verbatim>\<open>self._stats[level_name] += 1\<close> on a key that is present.\<close>

definition increment :: "dict \<Rightarrow> string \<Rightarrow> dict" where
  "increment d k = map (\<lambda>(k', v). if k' = k then (k', v + 1) else (k', v)) d"

definition count_log_event :: "world \<Rightarrow> nat \<Rightarrow> LogRecord \<Rightarrow> bool \<times> world" where
  "count_log_event w self r =
     (let level_name = lower (levelname r);
          a = stats (reporters w ! self)
      in if level_name \<in> set (map fst (dicts w ! a))
         then (True, w\<lparr>dicts := (dicts w)[a := increment (dicts w ! a) level_name]\<rparr>)
         else (True, w))"

text \<open>
  \<^verbatim>\<open>Filterer.filter\<close>: the filters run in order, and the first false answer stops the
  loop and drops the record.
\<close>

fun run_filters :: "world \<Rightarrow> nat list \<Rightarrow> LogRecord \<Rightarrow> bool \<times> world" where
  "run_filters w [] r = (True, w)"
| "run_filters w (f # fs) r =
     (case count_log_event w f r of
        (result, w1) \<Rightarrow> if \<not> result then (False, w1) else run_filters w1 fs r)"

definition makeRecord :: "lref \<Rightarrow> int \<Rightarrow> string \<Rightarrow> string \<Rightarrow> LogRecord" where
  "makeRecord l lv ts msg =
     \<lparr>rec_name = logger_name l, levelno = lv, levelname = getLevelName lv,
      message = msg, asctime = ts, exc_text = None\<rparr>"

text \<open>
  \<^verbatim>\<open>Logger.handle\<close>, and \<^verbatim>\<open>Logger.log(level, msg)\<close>, which \<^verbatim>\<open>Logger.debug\<close> to
  \<^verbatim>\<open>Logger.critical\<close> are at their own level: nothing happens unless the logger is
  enabled for the level.  \<open>ts\<close> is the time of the call, \<open>msg\<close> the message.
\<close>

definition Logger_handle :: "world \<Rightarrow> lref \<Rightarrow> LogRecord \<Rightarrow> world" where
  "Logger_handle w l r =
     (case run_filters w (filters (get_logger w l)) r of
        (ok, w1) \<Rightarrow> if ok then callHandlers w1 l r else w1)"

definition Logger_log :: "world \<Rightarrow> lref \<Rightarrow> int \<Rightarrow> string \<Rightarrow> string \<Rightarrow> world" where
  "Logger_log w l lv ts msg =
     (if isEnabledFor w l lv then Logger_handle w l (makeRecord l lv ts msg) else w)"


definition print :: "world \<Rightarrow> nat \<Rightarrow> string \<Rightarrow> world" where
  "print w self text = console_print w (console (reporters w ! self)) (Plain text)"

definition debug :: "world \<Rightarrow> nat \<Rightarrow> string \<Rightarrow> string \<Rightarrow> world" where
  "debug w self ts msg = Logger_log w (logger (reporters w ! self)) DEBUG ts msg"

definition info :: "world \<Rightarrow> nat \<Rightarrow> string \<Rightarrow> string \<Rightarrow> world" where
  "info w self ts msg = Logger_log w (logger (reporters w ! self)) INFO ts msg"

definition warning :: "world \<Rightarrow> nat \<Rightarrow> string \<Rightarrow> string \<Rightarrow> world" where
  "warning w self ts msg = Logger_log w (logger (reporters w ! self)) WARNING ts msg"

definition error :: "world \<Rightarrow> nat \<Rightarrow> string \<Rightarrow> string \<Rightarrow> world" where
  "error w self ts msg = Logger_log w (logger (reporters w ! self)) ERROR ts msg"

definition critical :: "world \<Rightarrow> nat \<Rightarrow> string \<Rightarrow> string \<Rightarrow> world" where
  "critical w self ts msg = Logger_log w (logger (reporters w ! self)) CRITICAL ts msg"


text \<open>\<^verbatim>\<open>get_stats\<close>: \<^verbatim>\<open>self._stats.copy()\<close> is a new dictionary with the same items.\<close>

definition get_stats :: "world \<Rightarrow> nat \<Rightarrow> nat \<times> world" where
  "get_stats w self = new_dict w (dicts w ! stats (reporters w ! self))"

text \<open>
  \<^verbatim>\<open>report\<close>: one table row per item of \<^verbatim>\<open>self._stats\<close>, the panel printed on the
  Reporter's console, then the result of \<^verbatim>\<open>get_stats\<close>.
\<close>

definition count_style :: "string \<Rightarrow> string" where
  "count_style lvl =
     (if lvl = ''error'' \<or> lvl = ''critical'' then ''bold red''
      else if lvl = ''warning'' then ''bold yellow''
      else ''green'')"

definition table_row :: "string \<times> int \<Rightarrow> string \<times> string" where
  "table_row item =
     (case item of (lvl, n) \<Rightarrow>
        (upper lvl, ''['' @ count_style lvl @ '']'' @ str_int n @ ''[/'' @ count_style lvl @ '']''))"

definition summary_panel :: "string \<Rightarrow> dict \<Rightarrow> renderable" where
  "summary_panel title d =
     Panel (''[bold blue]'' @ title @ ''[/bold blue]'')
       [(''Level'', ''cyan''), (''Count'', ''green'')] (map table_row d)"

definition report :: "world \<Rightarrow> nat \<Rightarrow> string \<Rightarrow> nat \<times> world" where
  "report w self title =
     (let r = reporters w ! self;
          panel = summary_panel title (dicts w ! stats r)
      in get_stats (console_print w (console r) panel) self)"

text \<open>
  The context manager.  \<^verbatim>\<open>__enter__\<close> returns the Reporter.  \<^verbatim>\<open>__exit__\<close> calls
  \<^verbatim>\<open>self.report()\<close> and returns \<^verbatim>\<open>None\<close>, which the \<^verbatim>\<open>with\<close> statement reads as false:
  the result here is that truth value.
\<close>

definition enter :: "world \<Rightarrow> nat \<Rightarrow> nat \<times> world" where
  "enter w self = (self, w)"

definition exit :: "world \<Rightarrow> nat \<Rightarrow> exn option \<Rightarrow> bool \<times> world" where
  "exit w self exc = (case report w self ''Report Summary'' of (d, w1) \<Rightarrow> (False, w1))"

text \<open>
  \<^verbatim>\<open>with reporter as r: body\<close>.  The body is any code: it takes the world and the value
  of \<^verbatim>\<open>__enter__\<close> and ends normally or by raising.  \<^verbatim>\<open>__exit__\<close> runs in both cases, and
  an exception of the body goes on to the caller unless \<^verbatim>\<open>__exit__\<close> answered true.
\<close>

definition with_reporter ::
  "world \<Rightarrow> nat \<Rightarrow> (world \<Rightarrow> nat \<Rightarrow> exn option \<times> world) \<Rightarrow> exn option \<times> world" where
  "with_reporter w self body =
     (case enter w self of (r, w0) \<Rightarrow>
        (case body w0 r of (exc, w1) \<Rightarrow>
           (case exit w1 self exc of (suppress, w2) \<Rightarrow>
              (case exc of
                 None \<Rightarrow> (None, w2)
               | Some e \<Rightarrow> if suppress then (None, w2) else (Some e, w2)))))"

section \<open>Properties\<close>

subsection \<open>The store invariant\<close>

definition logger_ok :: "world \<Rightarrow> lref \<Rightarrow> Logger \<Rightarrow> bool" where
  "logger_ok w l lg =
     (distinct (filters lg) \<and>
      (\<forall>f \<in> set (filters lg). f < length (reporters w) \<and> logger (reporters w ! f) = l))"

definition reporter_ok :: "world \<Rightarrow> Reporter \<Rightarrow> bool" where
  "reporter_ok w r =
     (stats r < length (dicts w) \<and> console r < length (consoles w) \<and>
      map fst (dicts w ! stats r) = map fst zero_stats)"

definition well_formed :: "world \<Rightarrow> bool" where
  "well_formed w =
     ((\<forall>r \<in> set (reporters w). reporter_ok w r) \<and>
      distinct (map stats (reporters w)) \<and>
      logger_ok w Root (root w) \<and>
      (\<forall>(nm, lg) \<in> set (loggerDict w). logger_ok w (Named nm) lg))"

lemma set_logger_fields [simp]:
  "reporters (set_logger w l lg) = reporters w"
  "dicts (set_logger w l lg) = dicts w"
  "consoles (set_logger w l lg) = consoles w"
  "files (set_logger w l lg) = files w"
  "unopenable (set_logger w l lg) = unopenable w"
  "file_of (set_logger w l lg) = file_of w"
  by (cases l; simp add: set_logger_def)+

lemma get_set_logger_same [simp]: "get_logger (set_logger w l lg) l = lg"
  by (cases l) (simp_all add: get_logger_def set_logger_def AList.update_conv')

lemma get_set_logger_other [simp]:
  "l' \<noteq> l \<Longrightarrow> get_logger (set_logger w l lg) l' = get_logger w l'"
  by (cases l; cases l') (simp_all add: get_logger_def set_logger_def AList.update_conv')

lemma get_logger_ok: "well_formed w \<Longrightarrow> logger_ok w l (get_logger w l)"
  by (cases l)
     (auto simp: well_formed_def get_logger_def new_logger_def logger_ok_def
           split: option.splits dest!: map_of_SomeD)

lemma set_update_entries: "set (AList.update k v al) \<subseteq> insert (k, v) (set al)"
  by (induction al) auto

lemma chain_head: "chain w l = l # tl (chain w l)"
  by (cases l) (simp_all add: chain_def)

lemma getEffectiveLevel_own:
  "level (get_logger w l) \<noteq> 0 \<Longrightarrow> getEffectiveLevel w l = level (get_logger w l)"
  unfolding getEffectiveLevel_def by (subst chain_head) simp

lemma emit_fields [simp]:
  "root (emit w h r) = root w"
  "loggerDict (emit w h r) = loggerDict w"
  "reporters (emit w h r) = reporters w"
  "dicts (emit w h r) = dicts w"
  "unopenable (emit w h r) = unopenable w"
  "file_of (emit w h r) = file_of w"
  by (cases h; simp add: console_print_def)+

lemma deliver_fields [simp]:
  "root (deliver r h w) = root w"
  "loggerDict (deliver r h w) = loggerDict w"
  "reporters (deliver r h w) = reporters w"
  "dicts (deliver r h w) = dicts w"
  "unopenable (deliver r h w) = unopenable w"
  "file_of (deliver r h w) = file_of w"
  by (simp_all add: deliver_def)

lemma fold_deliver_fields [simp]:
  "root (fold (deliver r) hs w) = root w"
  "loggerDict (fold (deliver r) hs w) = loggerDict w"
  "reporters (fold (deliver r) hs w) = reporters w"
  "dicts (fold (deliver r) hs w) = dicts w"
  "unopenable (fold (deliver r) hs w) = unopenable w"
  "file_of (fold (deliver r) hs w) = file_of w"
  by (induction hs arbitrary: w) simp_all

lemma callHandlers_fields [simp]:
  "root (callHandlers w l r) = root w"
  "loggerDict (callHandlers w l r) = loggerDict w"
  "reporters (callHandlers w l r) = reporters w"
  "dicts (callHandlers w l r) = dicts w"
  "unopenable (callHandlers w l r) = unopenable w"
  "file_of (callHandlers w l r) = file_of w"
  by (simp_all add: callHandlers_def)

text \<open>The counting filter, as one update of the store of dictionaries.\<close>

definition bump :: "string \<Rightarrow> dict \<Rightarrow> dict" where
  "bump k d = (if k \<in> set (map fst d) then increment d k else d)"

definition count_in :: "world \<Rightarrow> string \<Rightarrow> nat \<Rightarrow> dict list \<Rightarrow> dict list" where
  "count_in w k f ds = ds[stats (reporters w ! f) := bump k (ds ! stats (reporters w ! f))]"

lemma count_log_event_eq:
  "count_log_event w f r = (True, w\<lparr>dicts := count_in w (lower (levelname r)) f (dicts w)\<rparr>)"
  by (simp add: count_log_event_def count_in_def bump_def Let_def)

lemma run_filters_eq:
  "run_filters w fs r = (True, w\<lparr>dicts := fold (count_in w (lower (levelname r))) fs (dicts w)\<rparr>)"
proof (induction fs arbitrary: w)
  case Nil
  then show ?case by simp
next
  case (Cons f fs)
  have same: "count_in (w\<lparr>dicts := ds\<rparr>) = count_in w" for ds
    by (simp add: count_in_def fun_eq_iff)
  show ?case
    by (simp add: count_log_event_eq Cons.IH same)
qed


lemma fold_count_in_length [simp]: "length (fold (count_in w k) fs ds) = length ds"
  by (induction fs arbitrary: ds) (simp_all add: count_in_def)

lemma fold_count_in_other:
  "\<forall>f \<in> set fs. stats (reporters w ! f) \<noteq> a \<Longrightarrow> fold (count_in w k) fs ds ! a = ds ! a"
  by (induction fs arbitrary: ds) (simp_all add: count_in_def)

lemma fold_count_in_hit:
  "distinct (map (\<lambda>f. stats (reporters w ! f)) fs) \<Longrightarrow> f \<in> set fs \<Longrightarrow>
   stats (reporters w ! f) < length ds \<Longrightarrow>
   fold (count_in w k) fs ds ! stats (reporters w ! f) = bump k (ds ! stats (reporters w ! f))"
proof (induction fs arbitrary: ds)
  case Nil
  then show ?case by simp
next
  case (Cons g fs)
  show ?case
  proof (cases "g = f")
    case True
    with Cons.prems have "\<forall>h \<in> set fs. stats (reporters w ! h) \<noteq> stats (reporters w ! f)"
      by (auto simp: image_iff)
    then have "fold (count_in w k) fs (count_in w k f ds) ! stats (reporters w ! f)
        = count_in w k f ds ! stats (reporters w ! f)"
      by (rule fold_count_in_other)
    also from Cons.prems have "\<dots> = bump k (ds ! stats (reporters w ! f))"
      by (simp add: count_in_def)
    finally show ?thesis using True by simp
  next
    case False
    with Cons.prems have mem: "f \<in> set fs"
      and ne: "stats (reporters w ! g) \<noteq> stats (reporters w ! f)"
      by auto
    from Cons.prems have len: "stats (reporters w ! f) < length (count_in w k g ds)"
      by (simp add: count_in_def)
    from Cons.prems have "distinct (map (\<lambda>f. stats (reporters w ! f)) fs)" by simp
    from Cons.IH [OF this mem len] ne show ?thesis
      by (simp add: count_in_def)
  qed
qed

lemma Logger_log_fields [simp]:
  "root (Logger_log w l lv ts msg) = root w"
  "loggerDict (Logger_log w l lv ts msg) = loggerDict w"
  "reporters (Logger_log w l lv ts msg) = reporters w"
  "unopenable (Logger_log w l lv ts msg) = unopenable w"
  "file_of (Logger_log w l lv ts msg) = file_of w"
  by (simp_all add: Logger_log_def Logger_handle_def run_filters_eq)

lemma Logger_log_dicts:
  "dicts (Logger_log w l lv ts msg) =
     (if isEnabledFor w l lv
      then fold (count_in w (lower (getLevelName lv))) (filters (get_logger w l)) (dicts w)
      else dicts w)"
  by (simp add: Logger_log_def Logger_handle_def run_filters_eq makeRecord_def)

lemma get_logger_cong:
  "root w' = root w \<Longrightarrow> loggerDict w' = loggerDict w \<Longrightarrow> get_logger w' l = get_logger w l"
  by (cases l) (simp_all add: get_logger_def)

lemma stats_inj:
  "distinct (map stats rs) \<Longrightarrow> i < length rs \<Longrightarrow> j < length rs \<Longrightarrow>
   stats (rs ! i) = stats (rs ! j) \<Longrightarrow> i = j"
  using nth_eq_iff_index_eq [of "map stats rs" i j] by simp

lemma stats_distinct_filters:
  assumes "well_formed w"
  shows "distinct (map (\<lambda>f. stats (reporters w ! f)) (filters (get_logger w l)))"
proof -
  from assms have ok: "logger_ok w l (get_logger w l)" by (rule get_logger_ok)
  from assms have d: "distinct (map stats (reporters w))" by (simp add: well_formed_def)
  have "inj_on (\<lambda>f. stats (reporters w ! f)) (set (filters (get_logger w l)))"
  proof (rule inj_onI)
    fix x y
    assume x: "x \<in> set (filters (get_logger w l))" and y: "y \<in> set (filters (get_logger w l))"
      and eq: "stats (reporters w ! x) = stats (reporters w ! y)"
    from ok x y have lx: "x < length (reporters w)" and ly: "y < length (reporters w)"
      by (auto simp: logger_ok_def)
    from d lx ly eq show "x = y" by (rule stats_inj)
  qed
  moreover from ok have "distinct (filters (get_logger w l))" by (simp add: logger_ok_def)
  ultimately show ?thesis by (simp add: distinct_map)
qed

text \<open>A call on a logger leaves the counters of the Reporters of other loggers alone.\<close>

lemma Logger_log_other_stats:
  assumes wf: "well_formed w" and j: "j < length (reporters w)"
    and other: "logger (reporters w ! j) \<noteq> l"
  shows "dicts (Logger_log w l lv ts msg) ! stats (reporters w ! j) = dicts w ! stats (reporters w ! j)"
proof -
  from wf have ok: "logger_ok w l (get_logger w l)" by (rule get_logger_ok)
  from wf have d: "distinct (map stats (reporters w))" by (simp add: well_formed_def)
  have "\<forall>f \<in> set (filters (get_logger w l)). stats (reporters w ! f) \<noteq> stats (reporters w ! j)"
  proof
    fix f assume f: "f \<in> set (filters (get_logger w l))"
    with ok have lf: "f < length (reporters w)" and lg: "logger (reporters w ! f) = l"
      by (auto simp: logger_ok_def)
    with other have "f \<noteq> j" by auto
    with stats_inj [OF d lf j] show "stats (reporters w ! f) \<noteq> stats (reporters w ! j)" by auto
  qed
  then show ?thesis
    by (simp add: Logger_log_dicts fold_count_in_other)
qed

text \<open>An admitted call on a Reporter's logger counts once in that Reporter.\<close>

lemma Logger_log_own_stats:
  assumes wf: "well_formed w" and i: "i < length (reporters w)"
    and own: "i \<in> set (filters (get_logger w l))"
  shows "dicts (Logger_log w l lv ts msg) ! stats (reporters w ! i) =
     (if isEnabledFor w l lv then bump (lower (getLevelName lv)) (dicts w ! stats (reporters w ! i))
      else dicts w ! stats (reporters w ! i))"
proof -
  from wf i have "stats (reporters w ! i) < length (dicts w)"
    by (auto simp: well_formed_def reporter_ok_def)
  with stats_distinct_filters [OF wf, of l] own show ?thesis
    by (simp add: Logger_log_dicts fold_count_in_hit)
qed



lemma well_formed_init_world: "well_formed init_world"
  by (simp add: well_formed_def init_world_def logger_ok_def)

lemma reporter_ok_extend:
  assumes "length (dicts w) \<le> length (dicts w')"
    and "\<And>a. a < length (dicts w) \<Longrightarrow> map fst (dicts w' ! a) = map fst (dicts w ! a)"
    and "length (consoles w) \<le> length (consoles w')"
    and "reporter_ok w r"
  shows "reporter_ok w' r"
  using assms by (auto simp: reporter_ok_def)

lemma logger_ok_extend:
  assumes "logger_ok w l lg" and "length (reporters w) \<le> length (reporters w')"
    and "\<And>f. f < length (reporters w) \<Longrightarrow> reporters w' ! f = reporters w ! f"
  shows "logger_ok w' l lg"
  using assms by (auto simp: logger_ok_def)

lemma well_formedI:
  assumes "\<And>r. r \<in> set (reporters w) \<Longrightarrow> reporter_ok w r"
    and "distinct (map stats (reporters w))"
    and "logger_ok w Root (root w)"
    and "\<And>nm lg. (nm, lg) \<in> set (loggerDict w) \<Longrightarrow> logger_ok w (Named nm) lg"
  shows "well_formed w"
  using assms unfolding well_formed_def by blast

lemma well_formed_reporter: "well_formed w \<Longrightarrow> r \<in> set (reporters w) \<Longrightarrow> reporter_ok w r"
  unfolding well_formed_def by blast

lemma well_formed_distinct: "well_formed w \<Longrightarrow> distinct (map stats (reporters w))"
  unfolding well_formed_def by blast

lemma well_formed_root: "well_formed w \<Longrightarrow> logger_ok w Root (root w)"
  unfolding well_formed_def by blast

lemma well_formed_named:
  "well_formed w \<Longrightarrow> (nm, lg) \<in> set (loggerDict w) \<Longrightarrow> logger_ok w (Named nm) lg"
  unfolding well_formed_def by blast

lemma well_formed_fields:
  assumes rs: "reporters w' = reporters w"
    and "length (dicts w) \<le> length (dicts w')"
    and "\<And>a. a < length (dicts w) \<Longrightarrow> map fst (dicts w' ! a) = map fst (dicts w ! a)"
    and "length (consoles w) \<le> length (consoles w')"
    and rt: "root w' = root w" and ld: "loggerDict w' = loggerDict w"
    and wf: "well_formed w"
  shows "well_formed w'"
proof (rule well_formedI)
  fix r assume "r \<in> set (reporters w')"
  with rs wf have "reporter_ok w r" by (simp add: well_formed_reporter)
  with assms(2-4) show "reporter_ok w' r" by (rule reporter_ok_extend)
next
  from wf rs show "distinct (map stats (reporters w'))" by (simp add: well_formed_distinct)
next
  from wf have "logger_ok w Root (root w)" by (rule well_formed_root)
  then have "logger_ok w' Root (root w)" by (rule logger_ok_extend) (simp_all add: rs)
  with rt show "logger_ok w' Root (root w')" by simp
next
  fix nm lg assume "(nm, lg) \<in> set (loggerDict w')"
  with ld wf have "logger_ok w (Named nm) lg" by (simp add: well_formed_named)
  then show "logger_ok w' (Named nm) lg" by (rule logger_ok_extend) (simp_all add: rs)
qed

lemma well_formed_set_logger:
  assumes wf: "well_formed w" and ok: "logger_ok w l lg"
  shows "well_formed (set_logger w l lg)"
proof (rule well_formedI)
  fix r assume "r \<in> set (reporters (set_logger w l lg))"
  with wf have "reporter_ok w r" by (simp add: well_formed_reporter)
  then show "reporter_ok (set_logger w l lg) r" by (simp add: reporter_ok_def)
next
  from wf show "distinct (map stats (reporters (set_logger w l lg)))"
    by (simp add: well_formed_distinct)
next
  have "logger_ok w Root (root (set_logger w l lg))"
    using ok well_formed_root [OF wf] by (cases l) (simp_all add: set_logger_def)
  then show "logger_ok (set_logger w l lg) Root (root (set_logger w l lg))"
    by (simp add: logger_ok_def)
next
  fix nm' lg' assume mem: "(nm', lg') \<in> set (loggerDict (set_logger w l lg))"
  have "logger_ok w (Named nm') lg'"
  proof (cases l)
    case Root
    with mem wf show ?thesis by (simp add: set_logger_def well_formed_named)
  next
    case (Named nm)
    with mem have "(nm', lg') \<in> set (AList.update nm lg (loggerDict w))"
      by (simp add: set_logger_def)
    with set_update_entries [of nm lg "loggerDict w"]
    have "(nm', lg') = (nm, lg) \<or> (nm', lg') \<in> set (loggerDict w)" by blast
    with ok Named wf show ?thesis by (auto simp: well_formed_named)
  qed
  then show "logger_ok (set_logger w l lg) (Named nm') lg'"
    by (simp add: logger_ok_def)
qed

lemma keys_increment [simp]: "map fst (increment d k) = map fst d"
  by (induction d) (auto simp: increment_def)

lemma keys_bump [simp]: "map fst (bump k d) = map fst d"
  by (simp add: bump_def)

lemma keys_fold_count_in [simp]:
  "map fst (fold (count_in w k) fs ds ! a) = map fst (ds ! a)"
proof (induction fs arbitrary: ds)
  case Nil
  then show ?case by simp
next
  case (Cons f fs)
  have "map fst (count_in w k f ds ! a) = map fst (ds ! a)"
    by (cases "stats (reporters w ! f) < length ds")
       (auto simp: count_in_def nth_list_update list_update_beyond)
  with Cons.IH [of "count_in w k f ds"] show ?case by simp
qed

lemma emit_consoles_length [simp]: "length (consoles (emit w h r)) = length (consoles w)"
  by (cases h) (simp_all add: console_print_def)

lemma fold_deliver_consoles_length [simp]:
  "length (consoles (fold (deliver r) hs w)) = length (consoles w)"
  by (induction hs arbitrary: w) (simp_all add: deliver_def)

lemma Logger_log_consoles_length [simp]:
  "length (consoles (Logger_log w l lv ts msg)) = length (consoles w)"
  by (simp add: Logger_log_def Logger_handle_def run_filters_eq callHandlers_def)

lemma well_formed_Logger_log:
  "well_formed w \<Longrightarrow> well_formed (Logger_log w l lv ts msg)"
  by (rule well_formed_fields [of _ w]) (simp_all add: Logger_log_dicts)

lemma well_formed_get_stats:
  "well_formed w \<Longrightarrow> well_formed (snd (get_stats w self))"
  by (rule well_formed_fields [of _ w]) (simp_all add: get_stats_def new_dict_def nth_append)

lemma well_formed_console_print:
  "well_formed w \<Longrightarrow> well_formed (console_print w c x)"
  by (rule well_formed_fields [of _ w]) (simp_all add: console_print_def)

lemma well_formed_report:
  "well_formed w \<Longrightarrow> well_formed (snd (report w self title))"
  by (simp add: report_def Let_def well_formed_get_stats well_formed_console_print)

lemma well_formed_setLevel:
  assumes "well_formed w"
  shows "well_formed (setLevel w l lv)"
proof -
  from assms have "logger_ok w l (get_logger w l)" by (rule get_logger_ok)
  then have "logger_ok w l ((get_logger w l)\<lparr>level := lv\<rparr>)" by (simp add: logger_ok_def)
  with assms show ?thesis unfolding setLevel_def by (rule well_formed_set_logger)
qed

lemma well_formed_clear_handlers:
  assumes "well_formed w"
  shows "well_formed (clear_handlers w l)"
proof -
  from assms have "logger_ok w l (get_logger w l)" by (rule get_logger_ok)
  then have "logger_ok w l ((get_logger w l)\<lparr>handlers := []\<rparr>)" by (simp add: logger_ok_def)
  with assms show ?thesis unfolding clear_handlers_def by (rule well_formed_set_logger)
qed

lemma well_formed_addHandler:
  assumes "well_formed w"
  shows "well_formed (addHandler w l h)"
proof -
  from assms have "logger_ok w l (get_logger w l)" by (rule get_logger_ok)
  then have "logger_ok w l ((get_logger w l)\<lparr>handlers := handlers (get_logger w l) @ [h]\<rparr>)"
    by (simp add: logger_ok_def)
  with assms show ?thesis unfolding addHandler_def Let_def by (rule well_formed_set_logger)
qed

lemma well_formed_addFilter:
  assumes "well_formed w" and "f < length (reporters w)" and "logger (reporters w ! f) = l"
  shows "well_formed (addFilter w l f)"
proof (cases "f \<in> set (filters (get_logger w l))")
  case True
  with assms show ?thesis by (simp add: addFilter_def)
next
  case False
  from assms(1) have "logger_ok w l (get_logger w l)" by (rule get_logger_ok)
  with False assms(2,3)
  have "logger_ok w l ((get_logger w l)\<lparr>filters := filters (get_logger w l) @ [f]\<rparr>)"
    by (auto simp: logger_ok_def)
  with assms(1) False show ?thesis
    by (simp add: addFilter_def Let_def well_formed_set_logger)
qed

lemma well_formed_open_append:
  "well_formed w \<Longrightarrow> open_append w p = Inr w' \<Longrightarrow> well_formed w'"
  by (rule well_formed_fields [of _ w]) (auto simp: open_append_def Let_def split: if_splits)



lemma well_formed_new_console:
  "well_formed w \<Longrightarrow> well_formed (snd (new_console w))"
  by (rule well_formed_fields [of _ w]) (simp_all add: new_console_def)

lemma well_formed_new_reporter:
  assumes wf: "well_formed w" and c: "c < length (consoles w)"
  shows "well_formed (w\<lparr>dicts := dicts w @ [zero_stats],
     reporters := reporters w @ [\<lparr>name = nm, console = c, stats = length (dicts w), logger = l\<rparr>]\<rparr>)"
    (is "well_formed ?w'")
proof (rule well_formedI)
  fix r assume "r \<in> set (reporters ?w')"
  then consider "r \<in> set (reporters w)"
    | "r = \<lparr>name = nm, console = c, stats = length (dicts w), logger = l\<rparr>" by auto
  then show "reporter_ok ?w' r"
  proof cases
    case 1
    with wf have "reporter_ok w r" by (rule well_formed_reporter)
    then show ?thesis by (simp add: reporter_ok_def nth_append)
  next
    case 2
    with c show ?thesis by (simp add: reporter_ok_def)
  qed
next
  have "stats r < length (dicts w)" if "r \<in> set (reporters w)" for r
    using well_formed_reporter [OF wf that] by (simp add: reporter_ok_def)
  then have "length (dicts w) \<notin> stats ` set (reporters w)"
    by fastforce
  with well_formed_distinct [OF wf] show "distinct (map stats (reporters ?w'))"
    by simp
next
  from well_formed_root [OF wf] show "logger_ok ?w' Root (root ?w')"
    by (auto simp: logger_ok_def nth_append)
next
  fix nm' lg assume "(nm', lg) \<in> set (loggerDict ?w')"
  with wf have "logger_ok w (Named nm') lg" by (simp add: well_formed_named)
  then show "logger_ok ?w' (Named nm') lg"
    by (auto simp: logger_ok_def nth_append)
qed

text \<open>What the constructor does to the world, whichever way it ends.\<close>

definition configured ::
  "world \<Rightarrow> string \<Rightarrow> int \<Rightarrow> nat \<Rightarrow> bool \<Rightarrow> bool \<Rightarrow> world" where
  "configured w nm lv c show_time show_path =
     addHandler (clear_handlers (setLevel
       (w\<lparr>dicts := dicts w @ [zero_stats],
          reporters := reporters w @
            [\<lparr>name = nm, console = c, stats = length (dicts w), logger = getLogger nm\<rparr>]\<rparr>)
       (getLogger nm) lv) (getLogger nm)) (getLogger nm) (RichHandler c lv show_time show_path)"

lemma init_unfold:
  "init w nm lv con show_time show_path enable_file_handler file_path =
     (case console_or_new w con of (c, w1) \<Rightarrow>
        if enable_file_handler then
          (case file_path of
             None \<Rightarrow>
               (Inl (ValueError ''file_path must be provided when enable_file_handler=True''),
                configured w1 nm lv c show_time show_path)
           | Some p \<Rightarrow>
               if p = [] then
                 (Inl (ValueError ''file_path must be provided when enable_file_handler=True''),
                  configured w1 nm lv c show_time show_path)
               else
                 (case open_append (configured w1 nm lv c show_time show_path) p of
                    Inl e \<Rightarrow> (Inl e, configured w1 nm lv c show_time show_path)
                  | Inr w7 \<Rightarrow>
                      (Inr (length (reporters w1)),
                       addFilter (addHandler w7 (getLogger nm) (FileHandler (file_of w7 p) lv))
                         (getLogger nm) (length (reporters w1)))))
        else (Inr (length (reporters w1)),
              addFilter (configured w1 nm lv c show_time show_path) (getLogger nm)
                (length (reporters w1))))"
  by (simp add: init_def configured_def new_dict_def Let_def
        split: prod.splits option.splits sum.splits)

lemma console_or_new_props:
  assumes "console_or_new w con = (c, w1)"
    and "case con of Some c \<Rightarrow> c < length (consoles w) | None \<Rightarrow> True"
  shows "c < length (consoles w1)"
  using assms by (auto simp: console_or_new_def new_console_def split: option.splits)

lemma console_or_new_fields:
  assumes "console_or_new w con = (c, w1)"
  shows "reporters w1 = reporters w" and "dicts w1 = dicts w"
    and "root w1 = root w" and "loggerDict w1 = loggerDict w" and "files w1 = files w"
    and "unopenable w1 = unopenable w" and "file_of w1 = file_of w"
  using assms by (auto simp: console_or_new_def new_console_def split: option.splits)

lemma well_formed_console_or_new:
  "well_formed w \<Longrightarrow> console_or_new w con = (c, w1) \<Longrightarrow> well_formed w1"
  using well_formed_new_console [of w]
  by (auto simp: console_or_new_def split: option.splits)

lemma well_formed_configured:
  "well_formed w \<Longrightarrow> c < length (consoles w) \<Longrightarrow>
   well_formed (configured w nm lv c show_time show_path)"
  unfolding configured_def
  by (intro well_formed_addHandler well_formed_clear_handlers well_formed_setLevel
        well_formed_new_reporter)

lemma setLevel_fields [simp]:
  "reporters (setLevel w l lv) = reporters w" "dicts (setLevel w l lv) = dicts w"
  "consoles (setLevel w l lv) = consoles w" "files (setLevel w l lv) = files w"
  "unopenable (setLevel w l lv) = unopenable w"
  "file_of (setLevel w l lv) = file_of w"
  by (simp_all add: setLevel_def)

lemma clear_handlers_fields [simp]:
  "reporters (clear_handlers w l) = reporters w" "dicts (clear_handlers w l) = dicts w"
  "consoles (clear_handlers w l) = consoles w" "files (clear_handlers w l) = files w"
  "unopenable (clear_handlers w l) = unopenable w"
  "file_of (clear_handlers w l) = file_of w"
  by (simp_all add: clear_handlers_def)

lemma addHandler_fields [simp]:
  "reporters (addHandler w l h) = reporters w" "dicts (addHandler w l h) = dicts w"
  "consoles (addHandler w l h) = consoles w" "files (addHandler w l h) = files w"
  "unopenable (addHandler w l h) = unopenable w"
  "file_of (addHandler w l h) = file_of w"
  by (simp_all add: addHandler_def Let_def)

lemma addFilter_fields [simp]:
  "reporters (addFilter w l f) = reporters w" "dicts (addFilter w l f) = dicts w"
  "consoles (addFilter w l f) = consoles w" "files (addFilter w l f) = files w"
  "unopenable (addFilter w l f) = unopenable w"
  "file_of (addFilter w l f) = file_of w"
  by (simp_all add: addFilter_def Let_def)

lemma configured_fields [simp]:
  "reporters (configured w nm lv c st sp) =
     reporters w @ [\<lparr>name = nm, console = c, stats = length (dicts w), logger = getLogger nm\<rparr>]"
  "dicts (configured w nm lv c st sp) = dicts w @ [zero_stats]"
  "consoles (configured w nm lv c st sp) = consoles w"
  "files (configured w nm lv c st sp) = files w"
  "unopenable (configured w nm lv c st sp) = unopenable w"
  "file_of (configured w nm lv c st sp) = file_of w"
  by (simp_all add: configured_def)

lemma configured_logger:
  "get_logger (configured w nm lv c st sp) (getLogger nm) =
     \<lparr>level = lv, handlers = [RichHandler c lv st sp],
      filters = filters (get_logger w (getLogger nm))\<rparr>"
  by (simp add: configured_def addHandler_def clear_handlers_def setLevel_def Let_def
        get_logger_cong [of "w\<lparr>dicts := ds, reporters := rs\<rparr>" w for ds rs])

lemma open_append_fields:
  "open_append w p = Inr w' \<Longrightarrow>
   reporters w' = reporters w \<and> dicts w' = dicts w \<and> consoles w' = consoles w \<and>
   root w' = root w \<and> loggerDict w' = loggerDict w \<and> unopenable w' = unopenable w \<and>
   file_of w' = file_of w"
  by (auto simp: open_append_def Let_def split: if_splits)

lemma well_formed_init:
  assumes wf: "well_formed w"
    and con: "case con of Some c \<Rightarrow> c < length (consoles w) | None \<Rightarrow> True"
  shows "well_formed (snd (init w nm lv con show_time show_path enable_file_handler file_path))"
proof -
  obtain c w1 where cw: "console_or_new w con = (c, w1)"
    by (cases "console_or_new w con")
  define w6 where "w6 = configured w1 nm lv c show_time show_path"
  define self where "self = length (reporters w1)"
  from wf cw have wf1: "well_formed w1" by (rule well_formed_console_or_new)
  from cw con have c1: "c < length (consoles w1)" by (rule console_or_new_props)
  from wf1 c1 have wf6: "well_formed w6"
    unfolding w6_def by (rule well_formed_configured)
  have self6: "self < length (reporters w6)"
    and lg6: "logger (reporters w6 ! self) = getLogger nm"
    by (simp_all add: w6_def self_def)
  have filt: "well_formed (addFilter w6 (getLogger nm) self)"
    using wf6 self6 lg6 by (rule well_formed_addFilter)
  have with_file: "well_formed (addFilter (addHandler w7 (getLogger nm) (FileHandler q lv))
      (getLogger nm) self)" if "open_append w6 p = Inr w7" for p q w7
  proof (rule well_formed_addFilter)
    from wf6 that have "well_formed w7" by (rule well_formed_open_append)
    then show "well_formed (addHandler w7 (getLogger nm) (FileHandler q lv))"
      by (rule well_formed_addHandler)
    from open_append_fields [OF that] self6 lg6
    show "self < length (reporters (addHandler w7 (getLogger nm) (FileHandler q lv)))"
      and "logger (reporters (addHandler w7 (getLogger nm) (FileHandler q lv)) ! self)
        = getLogger nm"
      by simp_all
  qed
  show ?thesis
  proof (cases enable_file_handler)
    case False
    with filt show ?thesis
      by (simp add: init_unfold cw w6_def self_def)
  next
    case True
    show ?thesis
    proof (cases file_path)
      case None
      with True wf6 show ?thesis by (simp add: init_unfold cw w6_def)
    next
      case (Some p)
      show ?thesis
      proof (cases "open_append w6 p")
        case (Inl e)
        with True Some wf6 show ?thesis by (simp add: init_unfold cw w6_def)
      next
        case (Inr w7)
        with True Some wf6 with_file [OF Inr] show ?thesis
          by (simp add: init_unfold cw w6_def self_def)
      qed
    qed
  qed
qed



lemma configured_other_logger:
  "l \<noteq> getLogger nm \<Longrightarrow> get_logger (configured w nm lv c st sp) l = get_logger w l"
  by (simp add: configured_def addHandler_def clear_handlers_def setLevel_def Let_def
        get_logger_cong [of "w\<lparr>dicts := ds, reporters := rs\<rparr>" w for ds rs])

lemma configured_filters:
  "filters (get_logger (configured w nm lv c st sp) l) = filters (get_logger w l)"
  by (cases "l = getLogger nm") (simp_all add: configured_logger configured_other_logger)

lemma init_no_path:
  assumes cw: "console_or_new w con = (c, w1)"
  shows "init w nm lv con show_time show_path True None =
      (Inl (ValueError ''file_path must be provided when enable_file_handler=True''),
       configured w1 nm lv c show_time show_path)"
    and "init w nm lv con show_time show_path True (Some []) =
      (Inl (ValueError ''file_path must be provided when enable_file_handler=True''),
       configured w1 nm lv c show_time show_path)"
  by (subst init_unfold, subst cw, simp only: prod.case if_True option.case refl)+

subsection \<open>Construction without a destination\<close>

text \<open>
  Claim C8.  Constructing a Reporter with \<^verbatim>\<open>enable_file_handler=True\<close> and no file path
  (\<^verbatim>\<open>None\<close>, or the empty string, which \<^verbatim>\<open>not file_path\<close> also rejects) raises
  \<^verbatim>\<open>ValueError\<close> inside \<^verbatim>\<open>__init__\<close>: the constructor returns the error and no
  Reporter.  The raise comes before \<^verbatim>\<open>addFilter\<close>, so no logger holds the counting
  filter of the abandoned object: every logger has the filters it had.
\<close>

theorem init_requires_file_path:
  "fst (init w nm lv con show_time show_path True None) =
     Inl (ValueError ''file_path must be provided when enable_file_handler=True'') \<and>
   fst (init w nm lv con show_time show_path True (Some [])) =
     Inl (ValueError ''file_path must be provided when enable_file_handler=True'') \<and>
   filters (get_logger (snd (init w nm lv con show_time show_path True None)) l) =
     filters (get_logger w l)"
proof -
  obtain c w1 where cw: "console_or_new w con = (c, w1)"
    by (cases "console_or_new w con")
  have same: "get_logger w1 l = get_logger w l"
    by (rule get_logger_cong) (rule console_or_new_fields [OF cw])+
  show ?thesis
    unfolding init_no_path [OF cw] fst_conv snd_conv configured_filters same
    by (simp only: simp_thms)
qed

subsection \<open>Sequences of leveled calls\<close>

text \<open>
  The five leveled methods of a Reporter, the level and the counter key of each, a call
  of one of them, and a sequence of such calls on one Reporter, each with its time and
  message.
\<close>

datatype meth = Debug | Info | Warning | Error | Critical

fun method_level :: "meth \<Rightarrow> int" where
  "method_level Debug = DEBUG"
| "method_level Info = INFO"
| "method_level Warning = WARNING"
| "method_level Error = ERROR"
| "method_level Critical = CRITICAL"

fun method_key :: "meth \<Rightarrow> string" where
  "method_key Debug = ''debug''"
| "method_key Info = ''info''"
| "method_key Warning = ''warning''"
| "method_key Error = ''error''"
| "method_key Critical = ''critical''"

fun call :: "world \<Rightarrow> nat \<Rightarrow> meth \<Rightarrow> string \<Rightarrow> string \<Rightarrow> world" where
  "call w self Debug ts msg = debug w self ts msg"
| "call w self Info ts msg = info w self ts msg"
| "call w self Warning ts msg = warning w self ts msg"
| "call w self Error ts msg = error w self ts msg"
| "call w self Critical ts msg = critical w self ts msg"

fun calls :: "world \<Rightarrow> nat \<Rightarrow> (meth \<times> string \<times> string) list \<Rightarrow> world" where
  "calls w self [] = w"
| "calls w self ((m, ts, msg) # cs) = calls (call w self m ts msg) self cs"

text \<open>What \<^verbatim>\<open>get_stats()\<close> returns, read at once: the items of the new dictionary.\<close>

definition snapshot :: "world \<Rightarrow> nat \<Rightarrow> dict" where
  "snapshot w self = (case get_stats w self of (a, w') \<Rightarrow> dicts w' ! a)"

text \<open>
  The calls of a sequence that a minimum level admits, and how many of them were made
  with a given method.
\<close>

definition admitted :: "int \<Rightarrow> (meth \<times> string \<times> string) list \<Rightarrow> (meth \<times> string \<times> string) list" where
  "admitted lv cs = filter (\<lambda>c. method_level (fst c) \<ge> lv) cs"

definition tally :: "int \<Rightarrow> (meth \<times> string \<times> string) list \<Rightarrow> meth \<Rightarrow> int" where
  "tally lv cs m = int (length (filter (\<lambda>c. fst c = m) (admitted lv cs)))"

lemma snapshot_eq: "snapshot w self = dicts w ! stats (reporters w ! self)"
  by (simp add: snapshot_def get_stats_def new_dict_def)

lemma call_eq:
  "call w self m ts msg = Logger_log w (logger (reporters w ! self)) (method_level m) ts msg"
  by (cases m) (simp_all add: debug_def info_def warning_def error_def critical_def)

lemma method_level_pos: "0 < method_level m"
  by (cases m) (simp_all add: DEBUG_def INFO_def WARNING_def ERROR_def CRITICAL_def)

lemma method_levelname: "lower (getLevelName (method_level m)) = method_key m"
  by (cases m)
     (simp_all add: getLevelName_def lower_def lower_char_def
        DEBUG_def INFO_def WARNING_def ERROR_def CRITICAL_def)


lemma isEnabledFor_own:
  "level (get_logger w l) \<noteq> 0 \<Longrightarrow>
   isEnabledFor w l lv = (0 < lv \<and> level (get_logger w l) \<le> lv)"
  by (auto simp: isEnabledFor_def manager_disable_def getEffectiveLevel_own)

lemma get_logger_Logger_log [simp]:
  "get_logger (Logger_log w l lv ts msg) l' = get_logger w l'"
  by (rule get_logger_cong) simp_all

lemma get_logger_call [simp]: "get_logger (call w self m ts msg) l' = get_logger w l'"
  by (simp add: call_eq)

lemma reporters_call [simp]: "reporters (call w self m ts msg) = reporters w"
  by (simp add: call_eq)

lemma well_formed_call: "well_formed w \<Longrightarrow> well_formed (call w self m ts msg)"
  by (simp add: call_eq well_formed_Logger_log)

text \<open>
  A Reporter counts for its logger: the logger has the Reporter's filter, and the level
  the Reporter was constructed with.
\<close>

definition counts_for :: "world \<Rightarrow> nat \<Rightarrow> int \<Rightarrow> bool" where
  "counts_for w self lv =
     (well_formed w \<and> self < length (reporters w) \<and>
      self \<in> set (filters (get_logger w (logger (reporters w ! self)))) \<and>
      level (get_logger w (logger (reporters w ! self))) = lv)"

lemma counts_for_call: "counts_for w self lv \<Longrightarrow> counts_for (call w self m ts msg) self lv"
  by (simp add: counts_for_def well_formed_call)

lemma call_own_stats:
  assumes "counts_for w self lv" and "lv \<noteq> NOTSET"
  shows "dicts (call w self m ts msg) ! stats (reporters w ! self) =
     (if lv \<le> method_level m then bump (method_key m) (dicts w ! stats (reporters w ! self))
      else dicts w ! stats (reporters w ! self))"
proof -
  let ?l = "logger (reporters w ! self)"
  from assms have wf: "well_formed w" and i: "self < length (reporters w)"
    and own: "self \<in> set (filters (get_logger w ?l))" and lv: "level (get_logger w ?l) = lv"
    by (simp_all add: counts_for_def)
  from lv assms(2) have "isEnabledFor w ?l (method_level m) = (lv \<le> method_level m)"
    by (simp add: isEnabledFor_own NOTSET_def method_level_pos)
  with Logger_log_own_stats [OF wf i own, of "method_level m" ts msg] show ?thesis
    by (simp add: call_eq method_levelname)
qed

definition count_dict :: "int \<Rightarrow> int \<Rightarrow> int \<Rightarrow> int \<Rightarrow> int \<Rightarrow> dict" where
  "count_dict a b c d e =
     [(''debug'', a), (''info'', b), (''warning'', c), (''error'', d), (''critical'', e)]"

lemma bump_count_dict:
  "bump (method_key m) (count_dict a b c d e) =
     count_dict (a + (if m = Debug then 1 else 0)) (b + (if m = Info then 1 else 0))
       (c + (if m = Warning then 1 else 0)) (d + (if m = Error then 1 else 0))
       (e + (if m = Critical then 1 else 0))"
  by (cases m) (simp_all add: bump_def count_dict_def increment_def)

lemma tally_Nil [simp]: "tally lv [] m = 0"
  by (simp add: tally_def admitted_def)

lemma tally_Cons:
  "tally lv ((m', ts, msg) # cs) m =
     (if lv \<le> method_level m' \<and> m' = m then 1 else 0) + tally lv cs m"
  by (auto simp: tally_def admitted_def)

lemma calls_count_dict:
  assumes "counts_for w self lv" and "lv \<noteq> NOTSET"
    and "dicts w ! stats (reporters w ! self) = count_dict a b c d e"
  shows "dicts (calls w self cs) ! stats (reporters w ! self) =
     count_dict (a + tally lv cs Debug) (b + tally lv cs Info) (c + tally lv cs Warning)
       (d + tally lv cs Error) (e + tally lv cs Critical)
     \<and> reporters (calls w self cs) = reporters w"
  using assms
proof (induction cs arbitrary: w a b c d e)
  case Nil
  then show ?case by simp
next
  case (Cons x cs)
  obtain m ts msg where x: "x = (m, ts, msg)" by (cases x)
  let ?w = "call w self m ts msg"
  have cf: "counts_for ?w self lv" using Cons.prems(1) by (rule counts_for_call)
  have rs: "reporters ?w = reporters w" by simp
  show ?case
  proof (cases "lv \<le> method_level m")
    case True
    with call_own_stats [OF Cons.prems(1,2), of m ts msg] Cons.prems(3)
    have "dicts ?w ! stats (reporters ?w ! self) =
        count_dict (a + (if m = Debug then 1 else 0)) (b + (if m = Info then 1 else 0))
          (c + (if m = Warning then 1 else 0)) (d + (if m = Error then 1 else 0))
          (e + (if m = Critical then 1 else 0))"
      by (simp add: bump_count_dict)
    from Cons.IH [OF cf Cons.prems(2) this] True show ?thesis
      by (simp add: x tally_Cons add.assoc)
  next
    case False
    with call_own_stats [OF Cons.prems(1,2), of m ts msg] Cons.prems(3)
    have "dicts ?w ! stats (reporters ?w ! self) = count_dict a b c d e"
      by simp
    from Cons.IH [OF cf Cons.prems(2) this] False show ?thesis
      by (simp add: x tally_Cons)
  qed
qed

lemma tally_sum:
  "tally lv cs Debug + tally lv cs Info + tally lv cs Warning + tally lv cs Error
     + tally lv cs Critical = int (length (admitted lv cs))"
proof (induction cs)
  case Nil
  then show ?case by (simp add: admitted_def)
next
  case (Cons x cs)
  obtain m ts msg where x: "x = (m, ts, msg)" by (cases x)
  have "int (length (admitted lv (x # cs))) =
      (if lv \<le> method_level m then 1 else 0) + int (length (admitted lv cs))"
    by (simp add: admitted_def x)
  with Cons show ?case
    by (cases m) (simp_all add: x tally_Cons)
qed


subsection \<open>What a successful construction leaves\<close>

lemma addFilter_logger:
  "get_logger (addFilter w l f) l =
     (get_logger w l)\<lparr>filters :=
        (if f \<in> set (filters (get_logger w l)) then filters (get_logger w l)
         else filters (get_logger w l) @ [f])\<rparr>"
  by (simp add: addFilter_def Let_def)

lemma addFilter_other: "l' \<noteq> l \<Longrightarrow> get_logger (addFilter w l f) l' = get_logger w l'"
  by (simp add: addFilter_def Let_def)

lemma addHandler_logger:
  "get_logger (addHandler w l h) l =
     (get_logger w l)\<lparr>handlers := handlers (get_logger w l) @ [h]\<rparr>"
  by (simp add: addHandler_def Let_def)

lemma addHandler_other: "l' \<noteq> l \<Longrightarrow> get_logger (addHandler w l h) l' = get_logger w l'"
  by (simp add: addHandler_def Let_def)

lemma open_append_logger: "open_append w p = Inr w' \<Longrightarrow> get_logger w' l = get_logger w l"
  by (rule get_logger_cong) (simp_all add: open_append_fields)

lemma open_append_files:
  "open_append w p = Inr w' \<Longrightarrow>
   files w' = (files w)(file_of w p \<mapsto>
      (case files w (file_of w p) of Some s \<Rightarrow> s | None \<Rightarrow> []))"
  by (auto simp: open_append_def Let_def split: if_splits)

lemma open_append_Inr:
  "file_of w p \<notin> set (unopenable w) \<Longrightarrow> \<exists>w'. open_append w p = Inr w'"
  by (simp add: open_append_def Let_def)

text \<open>The two ways \<^verbatim>\<open>__init__\<close> returns: without a file handler, and with one.\<close>

lemma init_Inr_cases:
  assumes "init w nm lv con show_time show_path enable_file_handler file_path = (Inr self, w1)"
  obtains (plain) c w0 where "console_or_new w con = (c, w0)" "\<not> enable_file_handler"
      "self = length (reporters w)"
      "w1 = addFilter (configured w0 nm lv c show_time show_path) (getLogger nm) self"
    | (with_file) c w0 p w7 where "console_or_new w con = (c, w0)" "enable_file_handler"
      "file_path = Some p" "p \<noteq> []"
      "open_append (configured w0 nm lv c show_time show_path) p = Inr w7"
      "self = length (reporters w)"
      "w1 = addFilter (addHandler w7 (getLogger nm) (FileHandler (file_of w7 p) lv))
             (getLogger nm) self"
proof -
  obtain c w0 where cw: "console_or_new w con = (c, w0)"
    by (cases "console_or_new w con")
  have rs: "reporters w0 = reporters w" by (rule console_or_new_fields [OF cw])
  show thesis
  proof (cases enable_file_handler)
    case False
    with assms have "self = length (reporters w)"
      and "w1 = addFilter (configured w0 nm lv c show_time show_path) (getLogger nm) self"
      by (auto simp: init_unfold cw rs)
    with cw False show ?thesis by (rule plain)
  next
    case True
    show ?thesis
    proof (cases file_path)
      case None
      with assms True show ?thesis by (simp add: init_unfold cw)
    next
      case (Some p)
      show ?thesis
      proof (cases "p = []")
        case True
        with assms \<open>enable_file_handler\<close> Some show ?thesis by (simp add: init_unfold cw)
      next
        case False
        show ?thesis
        proof (cases "open_append (configured w0 nm lv c show_time show_path) p")
          case (Inl e)
          with assms \<open>enable_file_handler\<close> Some False show ?thesis
            by (simp add: init_unfold cw)
        next
          case (Inr w7)
          with assms \<open>enable_file_handler\<close> Some False
          have "self = length (reporters w)"
            and "w1 = addFilter (addHandler w7 (getLogger nm) (FileHandler (file_of w7 p) lv))
                   (getLogger nm) self"
            by (auto simp: init_unfold cw rs)
          with cw \<open>enable_file_handler\<close> Some False Inr show ?thesis by (rule with_file)
        qed
      qed
    qed
  qed
qed

lemma init_Inr_store:
  assumes "init w nm lv con show_time show_path enable_file_handler file_path = (Inr self, w1)"
  shows "self = length (reporters w) \<and>
     (\<exists>c. reporters w1 = reporters w @
          [\<lparr>name = nm, console = c, stats = length (dicts w), logger = getLogger nm\<rparr>]) \<and>
     dicts w1 = dicts w @ [zero_stats] \<and>
     level (get_logger w1 (getLogger nm)) = lv \<and>
     self \<in> set (filters (get_logger w1 (getLogger nm)))"
  using assms
proof (cases rule: init_Inr_cases)
  case (plain c w0)
  from console_or_new_fields [OF plain(1)] plain(3,4) show ?thesis
    by (simp add: addFilter_logger configured_logger)
next
  case (with_file c w0 p w7)
  from open_append_fields [OF with_file(5)] open_append_logger [OF with_file(5)]
    console_or_new_fields [OF with_file(1)] with_file(6,7) show ?thesis
    by (simp add: addFilter_logger addHandler_logger configured_logger)
qed

lemma init_counts_for:
  assumes wf: "well_formed w"
    and con: "case con of Some c \<Rightarrow> c < length (consoles w) | None \<Rightarrow> True"
    and init: "init w nm lv con show_time show_path enable_file_handler file_path = (Inr self, w1)"
  shows "counts_for w1 self lv"
    and "dicts w1 ! stats (reporters w1 ! self) = zero_stats"
    and "logger (reporters w1 ! self) = getLogger nm"
proof -
  from well_formed_init [OF wf con, of nm lv show_time show_path enable_file_handler file_path]
    init
  have wf1: "well_formed w1" by simp
  from init_Inr_store [OF init] obtain c where self: "self = length (reporters w)"
    and rs: "reporters w1 = reporters w @
      [\<lparr>name = nm, console = c, stats = length (dicts w), logger = getLogger nm\<rparr>]"
    and ds: "dicts w1 = dicts w @ [zero_stats]"
    and lv: "level (get_logger w1 (getLogger nm)) = lv"
    and own: "self \<in> set (filters (get_logger w1 (getLogger nm)))"
    by blast
  from rs self show lg: "logger (reporters w1 ! self) = getLogger nm" by simp
  from rs self ds show "dicts w1 ! stats (reporters w1 ! self) = zero_stats" by simp
  from wf1 rs self lv own lg show "counts_for w1 self lv"
    by (simp add: counts_for_def)
qed

text \<open>
  Claim C1.  A Reporter is constructed with minimum level \<open>lv\<close> (any level but NOTSET,
  which means "inherit the level of the parent logger") and then receives any sequence of
  calls of \<^verbatim>\<open>debug\<close>, \<^verbatim>\<open>info\<close>, \<^verbatim>\<open>warning\<close>, \<^verbatim>\<open>error\<close> and \<^verbatim>\<open>critical\<close>.  What
  \<^verbatim>\<open>get_stats()\<close> then returns has, under each of the five keys, exactly the number of
  calls of that method among those whose level is at least \<open>lv\<close>, and its values add up
  to the number of admitted calls.
\<close>

theorem get_stats_counts_admitted_calls:
  assumes "well_formed w"
    and "case con of Some c \<Rightarrow> c < length (consoles w) | None \<Rightarrow> True"
    and "init w nm lv con show_time show_path enable_file_handler file_path = (Inr self, w1)"
    and "lv \<noteq> NOTSET"
  shows "snapshot (calls w1 self cs) self =
           [(''debug'', tally lv cs Debug), (''info'', tally lv cs Info),
            (''warning'', tally lv cs Warning), (''error'', tally lv cs Error),
            (''critical'', tally lv cs Critical)] \<and>
         sum_list (map snd (snapshot (calls w1 self cs) self)) = int (length (admitted lv cs))"
proof -
  note start = init_counts_for [OF assms(1-3)]
  from start(2) have "dicts w1 ! stats (reporters w1 ! self) = count_dict 0 0 0 0 0"
    by (simp add: zero_stats_def count_dict_def)
  from calls_count_dict [OF start(1) assms(4) this, of cs]
  have "snapshot (calls w1 self cs) self =
      count_dict (tally lv cs Debug) (tally lv cs Info) (tally lv cs Warning)
        (tally lv cs Error) (tally lv cs Critical)"
    by (simp add: snapshot_eq)
  with tally_sum [of lv cs] show ?thesis
    by (simp add: count_dict_def)
qed

definition scenario :: "(meth \<times> string \<times> string) list" where
  "scenario =
     [(Debug, ''09:00:00'', ''d1''), (Debug, ''09:00:01'', ''d2''), (Info, ''09:00:02'', ''i1''),
      (Info, ''09:00:03'', ''i2''), (Info, ''09:00:04'', ''i3''), (Warning, ''09:00:05'', ''w1''),
      (Error, ''09:00:06'', ''e1''), (Error, ''09:00:07'', ''e2''),
      (Critical, ''09:00:08'', ''c1''), (Critical, ''09:00:09'', ''c2'')]"

lemma init_fresh:
  "init init_world nm lv None show_time show_path False None =
     (Inr 0, snd (init init_world nm lv None show_time show_path False None))"
  by (simp add: init_unfold console_or_new_def new_console_def init_world_def)

theorem get_stats_counts_scenario:
  "snapshot (calls (snd (init init_world ''app'' DEBUG None True False False None)) 0 scenario) 0 =
     [(''debug'', 2), (''info'', 3), (''warning'', 1), (''error'', 2), (''critical'', 2)]"
proof -
  have lv: "DEBUG \<noteq> NOTSET" by (simp add: DEBUG_def NOTSET_def)
  have con: "case None :: nat option of Some c \<Rightarrow> c < length (consoles init_world) | None \<Rightarrow> True"
    by simp
  from get_stats_counts_admitted_calls [OF well_formed_init_world con init_fresh lv, of "''app''" True False scenario]
  show ?thesis
    by (simp add: tally_def admitted_def scenario_def DEBUG_def INFO_def WARNING_def ERROR_def
        CRITICAL_def)
qed

text \<open>
  The level NOTSET is no minimum of its own: \<^verbatim>\<open>getEffectiveLevel\<close> then takes the level of
  the nearest logger above that has one.  In a fresh interpreter that is the root logger,
  at WARNING, and \<^verbatim>\<open>info\<close> on a Reporter constructed with \<^verbatim>\<open>level=logging.NOTSET\<close> is
  dropped.
\<close>

definition notset_world :: world where
  "notset_world = snd (init init_world ''app'' NOTSET None True False False None)"

lemma notset_inherits_root_level:
  "getEffectiveLevel notset_world (Named ''app'') = WARNING"
  "info notset_world 0 ts msg = notset_world"
proof -
  have w: "root notset_world = \<lparr>level = 30, handlers = [], filters = []\<rparr>"
    "loggerDict notset_world =
       [(''app'', \<lparr>level = 0, handlers = [RichHandler 0 0 True False], filters = [0]\<rparr>)]"
    "reporters notset_world = [\<lparr>name = ''app'', console = 0, stats = 0, logger = Named ''app''\<rparr>]"
    by (simp_all add: notset_world_def init_unfold console_or_new_def new_console_def
        init_world_def configured_def setLevel_def clear_handlers_def addHandler_def
        addFilter_def get_logger_def set_logger_def getLogger_def new_logger_def Let_def
        WARNING_def NOTSET_def)
  show lv: "getEffectiveLevel notset_world (Named ''app'') = WARNING"
    by (simp add: getEffectiveLevel_def chain_def candidate_parents_def get_logger_def w
        WARNING_def)
  then show "info notset_world 0 ts msg = notset_world"
    by (simp add: info_def w Logger_log_def isEnabledFor_def manager_disable_def INFO_def
        WARNING_def)
qed

subsection \<open>Calls below the minimum level\<close>

text \<open>
  Claim C3.  The minimum level of a Reporter is the level of its logger, which
  \<^verbatim>\<open>__init__\<close> sets to the \<^verbatim>\<open>level\<close> argument.  When it is \<open>lv\<close> (not NOTSET), a call of
  a leveled method whose level is below \<open>lv\<close> returns the world as it was: the same
  counters, so the same \<^verbatim>\<open>get_stats()\<close>, and nothing printed on any console or written
  to any file.
\<close>

theorem call_below_level_changes_nothing:
  assumes "level (get_logger w (logger (reporters w ! self))) = lv"
    and "lv \<noteq> NOTSET"
    and "method_level m < lv"
  shows "call w self m ts msg = w \<and>
         snapshot (call w self m ts msg) self = snapshot w self \<and>
         consoles (call w self m ts msg) = consoles w \<and>
         files (call w self m ts msg) = files w"
proof -
  from assms have "\<not> isEnabledFor w (logger (reporters w ! self)) (method_level m)"
    by (simp add: isEnabledFor_own NOTSET_def)
  then have "call w self m ts msg = w"
    by (simp add: call_eq Logger_log_def)
  then show ?thesis by simp
qed

definition warning_world :: world where
  "warning_world = snd (init init_world ''app'' WARNING None True False False None)"

lemma warning_world_level:
  "level (get_logger warning_world (logger (reporters warning_world ! 0))) = WARNING"
proof -
  from init_fresh [of "''app''" WARNING True False]
  have i: "init init_world ''app'' WARNING None True False False None = (Inr 0, warning_world)"
    by (simp add: warning_world_def)
  have "case None :: nat option of Some c \<Rightarrow> c < length (consoles init_world) | None \<Rightarrow> True"
    by simp
  from init_counts_for(1) [OF well_formed_init_world this i] show ?thesis
    by (simp add: counts_for_def)
qed

theorem call_below_level_changes_nothing_witness:
  "call warning_world 0 Info ''09:00:00'' ''hello'' = warning_world \<and>
   snapshot (call warning_world 0 Info ''09:00:00'' ''hello'') 0 = snapshot warning_world 0 \<and>
   consoles (call warning_world 0 Info ''09:00:00'' ''hello'') = consoles warning_world \<and>
   files (call warning_world 0 Info ''09:00:00'' ''hello'') = files warning_world"
proof -
  have "WARNING \<noteq> NOTSET" and "method_level Info < WARNING"
    by (simp_all add: WARNING_def NOTSET_def INFO_def)
  with warning_world_level show ?thesis
    by (rule call_below_level_changes_nothing)
qed

subsection \<open>Reporters and the loggers they share\<close>

text \<open>
  Two Reporters constructed one after the other with the same name, in a fresh
  interpreter.  \<^verbatim>\<open>logging.getLogger\<close> gives both the same logger, and \<^verbatim>\<open>__init__\<close> clears
  its handlers but not its filters, so the logger ends with the counting filters of both.
\<close>

definition same_name_world :: world where
  "same_name_world =
     snd (init (snd (init init_world ''app'' INFO None True False False None))
            ''app'' INFO None True False False None)"

lemma same_name_world_eq:
  "same_name_world =
     \<lparr>root = \<lparr>level = 30, handlers = [], filters = []\<rparr>,
      loggerDict =
        [(''app'', \<lparr>level = 20, handlers = [RichHandler 1 20 True False], filters = [0, 1]\<rparr>)],
      reporters =
        [\<lparr>name = ''app'', console = 0, stats = 0, logger = Named ''app''\<rparr>,
         \<lparr>name = ''app'', console = 1, stats = 1, logger = Named ''app''\<rparr>],
      dicts = [zero_stats, zero_stats], consoles = [[], []], files = Map.empty,
      unopenable = [], file_of = abspath ''/home/user''\<rparr>"
  by (simp add: same_name_world_def init_unfold console_or_new_def new_console_def
      init_world_def configured_def setLevel_def clear_handlers_def addHandler_def addFilter_def
      get_logger_def set_logger_def getLogger_def new_logger_def Let_def INFO_def WARNING_def
      NOTSET_def)

text \<open>
  Claim C2 fails for Reporters of the same name.  Both constructions succeed, at
  addresses 0 and 1; \<^verbatim>\<open>info\<close> on the second Reporter runs the filter of the first as
  well, and the first Reporter's \<^verbatim>\<open>get_stats()\<close> goes from no record to one at
  \<^verbatim>\<open>"info"\<close>.
\<close>

theorem same_name_reporters_share_counts:
  "fst (init init_world ''app'' INFO None True False False None) = Inr 0 \<and>
   fst (init (snd (init init_world ''app'' INFO None True False False None))
          ''app'' INFO None True False False None) = Inr 1 \<and>
   name (reporters same_name_world ! 0) = name (reporters same_name_world ! 1) \<and>
   snapshot same_name_world 0 =
     [(''debug'', 0), (''info'', 0), (''warning'', 0), (''error'', 0), (''critical'', 0)] \<and>
   snapshot (info same_name_world 1 ''09:00:00'' ''hello'') 0 =
     [(''debug'', 0), (''info'', 1), (''warning'', 0), (''error'', 0), (''critical'', 0)]"
proof -
  have first: "fst (init init_world ''app'' INFO None True False False None) = Inr 0"
    by (simp add: init_unfold console_or_new_def new_console_def init_world_def)
  have second: "fst (init (snd (init init_world ''app'' INFO None True False False None))
          ''app'' INFO None True False False None) = Inr 1"
    by (simp add: init_unfold console_or_new_def new_console_def init_world_def)
  have names: "name (reporters same_name_world ! 0) = name (reporters same_name_world ! 1)"
    by (simp add: same_name_world_eq)
  have before: "snapshot same_name_world 0 =
     [(''debug'', 0), (''info'', 0), (''warning'', 0), (''error'', 0), (''critical'', 0)]"
    by (simp add: snapshot_eq same_name_world_eq zero_stats_def)
  have lg: "get_logger same_name_world (Named ''app'') =
      \<lparr>level = 20, handlers = [RichHandler 1 20 True False], filters = [0, 1]\<rparr>"
    by (simp add: same_name_world_eq get_logger_def)
  have en: "isEnabledFor same_name_world (Named ''app'') INFO"
    by (simp add: isEnabledFor_own lg INFO_def)
  have "dicts (info same_name_world 1 ''09:00:00'' ''hello'') ! 0 =
     [(''debug'', 0), (''info'', 1), (''warning'', 0), (''error'', 0), (''critical'', 0)]"
    unfolding info_def
    by (simp add: Logger_log_dicts same_name_world_eq [THEN arg_cong, of reporters]
        same_name_world_eq [THEN arg_cong, of dicts] en lg method_levelname [of Info, simplified]
        count_in_def bump_def increment_def zero_stats_def)
  then have after: "snapshot (info same_name_world 1 ''09:00:00'' ''hello'') 0 =
     [(''debug'', 0), (''info'', 1), (''warning'', 0), (''error'', 0), (''critical'', 0)]"
    by (simp add: snapshot_eq info_def same_name_world_eq [THEN arg_cong, of reporters])
  from first second names before after show ?thesis by simp
qed

text \<open>
  Claim C2, amended.  In a well-formed world, a leveled call on one Reporter leaves what
  \<^verbatim>\<open>get_stats()\<close> returns for another unchanged whenever the two have different loggers,
  that is, names that \<^verbatim>\<open>logging.getLogger\<close> does not resolve to the same logger.
\<close>

theorem call_keeps_stats_of_other_logger:
  assumes "well_formed w" and "j < length (reporters w)"
    and "logger (reporters w ! i) \<noteq> logger (reporters w ! j)"
  shows "snapshot (call w i m ts msg) j = snapshot w j"
  using Logger_log_other_stats [OF assms(1,2), of "logger (reporters w ! i)"] assms(3)
  by (simp add: snapshot_eq call_eq)

definition two_names_world :: world where
  "two_names_world =
     snd (init (snd (init init_world ''app1'' INFO None True False False None))
            ''app2'' INFO None True False False None)"

lemma two_names_world_store:
  "reporters two_names_world =
     [\<lparr>name = ''app1'', console = 0, stats = 0, logger = Named ''app1''\<rparr>,
      \<lparr>name = ''app2'', console = 1, stats = 1, logger = Named ''app2''\<rparr>]"
  by (simp add: two_names_world_def init_unfold console_or_new_def new_console_def
      init_world_def getLogger_def)

lemma well_formed_two_names_world: "well_formed two_names_world"
proof -
  have "well_formed (snd (init init_world ''app1'' INFO None True False False None))"
    by (rule well_formed_init [OF well_formed_init_world]) simp
  then show ?thesis
    unfolding two_names_world_def by (rule well_formed_init) simp
qed

theorem call_keeps_stats_of_other_logger_witness:
  "snapshot (call two_names_world 0 Info ''09:00:00'' ''hello'') 1 = snapshot two_names_world 1"
proof -
  have "1 < length (reporters two_names_world)"
    and "logger (reporters two_names_world ! 0) \<noteq> logger (reporters two_names_world ! 1)"
    by (simp_all add: two_names_world_store)
  with well_formed_two_names_world show ?thesis
    by (rule call_keeps_stats_of_other_logger)
qed

subsection \<open>Snapshots and summaries\<close>

text \<open>
  What a caller can do to a dictionary it holds: item assignment, deletion, \<^verbatim>\<open>clear\<close>,
  \<^verbatim>\<open>update\<close>.  Each leaves the dictionary at that address with some new items.
\<close>

definition mutate :: "world \<Rightarrow> nat \<Rightarrow> dict \<Rightarrow> world" where
  "mutate w a d = w\<lparr>dicts := (dicts w)[a := d]\<rparr>"

text \<open>
  Claim C5.  \<^verbatim>\<open>get_stats()\<close> returns a dictionary of its own, not the Reporter's: it has
  the items of \<^verbatim>\<open>_stats\<close> at another address, and whatever the caller then makes of it, the
  next \<^verbatim>\<open>get_stats()\<close> returns the items the first one did.
\<close>

theorem get_stats_returns_copy:
  assumes "stats (reporters w ! self) < length (dicts w)"
    and "get_stats w self = (a, w1)"
  shows "a \<noteq> stats (reporters w ! self) \<and>
         dicts w1 ! a = dicts w ! stats (reporters w ! self) \<and>
         snapshot (mutate w1 a d) self = snapshot w self"
proof -
  from assms(2) have a: "a = length (dicts w)"
    and w1: "w1 = w\<lparr>dicts := dicts w @ [dicts w ! stats (reporters w ! self)]\<rparr>"
    by (auto simp: get_stats_def new_dict_def)
  from assms(1) a have ne: "a \<noteq> stats (reporters w ! self)" by simp
  have copy: "dicts w1 ! a = dicts w ! stats (reporters w ! self)"
    by (simp add: a w1)
  from assms(1) have "dicts (mutate w1 a d) ! stats (reporters w ! self)
      = dicts w ! stats (reporters w ! self)"
    by (simp add: mutate_def a w1 nth_append)
  then have "snapshot (mutate w1 a d) self = snapshot w self"
    by (simp add: snapshot_eq mutate_def w1)
  with ne copy show ?thesis by simp
qed

text \<open>A Reporter named \<^verbatim>\<open>"app"\<close> at INFO in a fresh interpreter.\<close>

definition app_world :: world where
  "app_world = snd (init init_world ''app'' INFO None True False False None)"

lemma app_world_eq:
  "app_world =
     \<lparr>root = \<lparr>level = 30, handlers = [], filters = []\<rparr>,
      loggerDict =
        [(''app'', \<lparr>level = 20, handlers = [RichHandler 0 20 True False], filters = [0]\<rparr>)],
      reporters = [\<lparr>name = ''app'', console = 0, stats = 0, logger = Named ''app''\<rparr>],
      dicts = [zero_stats], consoles = [[]], files = Map.empty, unopenable = [],
      file_of = abspath ''/home/user''\<rparr>"
  by (simp add: app_world_def init_unfold console_or_new_def new_console_def
      init_world_def configured_def setLevel_def clear_handlers_def addHandler_def addFilter_def
      get_logger_def set_logger_def getLogger_def new_logger_def Let_def INFO_def WARNING_def
      NOTSET_def)

lemma app_world_fields:
  "reporters app_world = [\<lparr>name = ''app'', console = 0, stats = 0, logger = Named ''app''\<rparr>]"
  "dicts app_world = [zero_stats]"
  "consoles app_world = [[]]"
  by (simp_all add: app_world_eq)

theorem get_stats_returns_copy_witness:
  "1 \<noteq> stats (reporters app_world ! 0) \<and>
   dicts (snd (get_stats app_world 0)) ! 1 = dicts app_world ! stats (reporters app_world ! 0) \<and>
   snapshot (mutate (snd (get_stats app_world 0)) 1 [(''info'', 999)]) 0 = snapshot app_world 0"
proof -
  have "stats (reporters app_world ! 0) < length (dicts app_world)"
    by (simp add: app_world_fields)
  moreover have "get_stats app_world 0 = (1, snd (get_stats app_world 0))"
    by (simp add: get_stats_def new_dict_def app_world_fields)
  ultimately show ?thesis
    by (rule get_stats_returns_copy)
qed

text \<open>
  \<^verbatim>\<open>report\<close> called once for each title of a list, with nothing in between; the result
  has the items of each dictionary returned.
\<close>

fun reports :: "world \<Rightarrow> nat \<Rightarrow> string list \<Rightarrow> dict list \<times> world" where
  "reports w self [] = ([], w)"
| "reports w self (t # ts) =
     (case report w self t of (a, w1) \<Rightarrow>
        (case reports w1 self ts of (ds, w2) \<Rightarrow> (dicts w1 ! a # ds, w2)))"

lemma report_eq:
  "report w self title =
     (length (dicts w),
      w\<lparr>consoles := (consoles w)[console (reporters w ! self) :=
            consoles w ! console (reporters w ! self) @
              [summary_panel title (dicts w ! stats (reporters w ! self))]],
         dicts := dicts w @ [dicts w ! stats (reporters w ! self)]\<rparr>)"
  by (simp add: report_def get_stats_def new_dict_def console_print_def Let_def)

text \<open>
  Claim C6.  Any number of calls of \<^verbatim>\<open>report()\<close> in a row return dictionaries with the
  same items, those of \<^verbatim>\<open>_stats\<close> before the first call; \<^verbatim>\<open>get_stats()\<close> is afterwards
  what it was before, and every dictionary that existed, \<^verbatim>\<open>_stats\<close> among them, is as it
  was.
\<close>

theorem report_is_read_only:
  assumes "stats (reporters w ! self) < length (dicts w)"
    and "reports w self titles = (ds, w')"
  shows "ds = replicate (length titles) (snapshot w self) \<and>
         snapshot w' self = snapshot w self \<and>
         take (length (dicts w)) (dicts w') = dicts w"
  using assms
proof (induction titles arbitrary: w ds w')
  case Nil
  then show ?case by auto
next
  case (Cons t ts)
  obtain a w1 where r: "report w self t = (a, w1)" by (cases "report w self t")
  obtain ds' w2 where rs: "reports w1 self ts = (ds', w2)" by (cases "reports w1 self ts")
  from r have rep: "reporters w1 = reporters w"
    and d1: "dicts w1 = dicts w @ [dicts w ! stats (reporters w ! self)]"
    and a: "a = length (dicts w)"
    by (auto simp: report_eq)
  from Cons.prems(1) rep d1 have valid: "stats (reporters w1 ! self) < length (dicts w1)"
    by simp
  from Cons.prems(1) rep d1 have same: "snapshot w1 self = snapshot w self"
    by (simp add: snapshot_eq nth_append)
  from Cons.prems(2) r rs have ds: "ds = dicts w1 ! a # ds'" and w': "w' = w2" by simp_all
  from a d1 have ret: "dicts w1 ! a = snapshot w self" by (simp add: snapshot_eq)
  from Cons.IH [OF valid rs] have ih: "ds' = replicate (length ts) (snapshot w1 self)"
    "snapshot w2 self = snapshot w1 self"
    "take (length (dicts w1)) (dicts w2) = dicts w1" by simp_all
  from ih(3) d1 have "take (length (dicts w)) (take (Suc (length (dicts w))) (dicts w2)) = dicts w"
    by simp
  then have "take (length (dicts w)) (dicts w2) = dicts w" by (simp add: min_def)
  with ih ds w' ret same show ?case by simp
qed

theorem report_is_read_only_witness:
  "fst (reports app_world 0 [''First'', ''Second'', ''Third'']) =
     [snapshot app_world 0, snapshot app_world 0, snapshot app_world 0] \<and>
   snapshot (snd (reports app_world 0 [''First'', ''Second'', ''Third''])) 0 = snapshot app_world 0 \<and>
   take (length (dicts app_world)) (dicts (snd (reports app_world 0 [''First'', ''Second'', ''Third'']))) =
     dicts app_world"
proof -
  have "stats (reporters app_world ! 0) < length (dicts app_world)"
    by (simp add: app_world_fields)
  from report_is_read_only [OF this, of "[''First'', ''Second'', ''Third'']"
      "fst (reports app_world 0 [''First'', ''Second'', ''Third''])"
      "snd (reports app_world 0 [''First'', ''Second'', ''Third''])"]
  show ?thesis by (simp add: numeral_3_eq_3)
qed

subsection \<open>The context manager\<close>

lemma exit_eq: "exit w self exc = (False, snd (report w self ''Report Summary''))"
  by (simp add: exit_def split: prod.splits)

lemma with_reporter_eq:
  "body w self = (exc, w1) \<Longrightarrow>
   with_reporter w self body = (exc, snd (report w1 self ''Report Summary''))"
  by (simp add: with_reporter_def enter_def exit_eq split: option.splits)

text \<open>
  Claim C4.  Whatever the body of \<^verbatim>\<open>with reporter:\<close> does, and whether it ends normally
  (\<open>exc = None\<close>) or by raising (\<open>exc = Some e\<close>), the world after the statement is the
  world the body left with \<^verbatim>\<open>report\<close> applied to it once, with the title
  \<^verbatim>\<open>"Report Summary"\<close>: the Reporter's console has one more item, the summary panel of
  that title.
\<close>

theorem with_reporter_reports_once:
  assumes "body w self = (exc, w1)"
    and "console (reporters w1 ! self) < length (consoles w1)"
  shows "snd (with_reporter w self body) = snd (report w1 self ''Report Summary'') \<and>
         consoles (snd (with_reporter w self body)) ! console (reporters w1 ! self) =
           consoles w1 ! console (reporters w1 ! self) @
             [summary_panel ''Report Summary'' (dicts w1 ! stats (reporters w1 ! self))] \<and>
         length (consoles (snd (with_reporter w self body)) ! console (reporters w1 ! self)) =
           Suc (length (consoles w1 ! console (reporters w1 ! self)))"
  using assms by (simp add: with_reporter_eq report_eq)

definition failing_body :: "world \<Rightarrow> nat \<Rightarrow> exn option \<times> world" where
  "failing_body w r = (Some (Raised ''Test exception''), info w r ''09:00:00'' ''Before exception'')"

definition passing_body :: "world \<Rightarrow> nat \<Rightarrow> exn option \<times> world" where
  "passing_body w r = (None, info w r ''09:00:00'' ''Test message'')"

lemma app_world_logger:
  "get_logger app_world (Named ''app'') =
     \<lparr>level = 20, handlers = [RichHandler 0 20 True False], filters = [0]\<rparr>"
  by (simp add: app_world_eq get_logger_def)

lemma app_world_chain: "chain app_world (Named ''app'') = [Named ''app'', Root]"
  by (simp add: chain_def candidate_parents_def)

lemma app_world_info:
  "info app_world 0 ts msg =
     app_world\<lparr>dicts := [[(''debug'', 0), (''info'', 1), (''warning'', 0), (''error'', 0),
                          (''critical'', 0)]],
       consoles := [[LogRender \<lparr>rec_name = ''app'', levelno = 20, levelname = ''INFO'',
                      message = msg, asctime = ts, exc_text = None\<rparr> True False]]\<rparr>"
proof -
  have en: "isEnabledFor app_world (Named ''app'') 20"
    by (simp add: isEnabledFor_own app_world_logger)
  have hs: "reachable_handlers (app_world\<lparr>dicts := ds\<rparr>) (Named ''app'') = [RichHandler 0 20 True False]" for ds
    by (simp add: reachable_handlers_def chain_def candidate_parents_def get_logger_def app_world_eq)
  show ?thesis
    by (simp add: info_def app_world_fields Logger_log_def en Logger_handle_def run_filters_eq
        app_world_logger callHandlers_def hs deliver_def makeRecord_def count_in_def bump_def
        increment_def zero_stats_def console_print_def lower_def lower_char_def getLevelName_def
        logger_name_def INFO_def CRITICAL_def ERROR_def WARNING_def)
qed

lemma app_world_info_store:
  "console (reporters (info app_world 0 ts msg) ! 0) = 0"
  "consoles (info app_world 0 ts msg) =
     [[LogRender \<lparr>rec_name = ''app'', levelno = 20, levelname = ''INFO'',
         message = msg, asctime = ts, exc_text = None\<rparr> True False]]"
  "summary_panel ''Report Summary''
     (dicts (info app_world 0 ts msg) ! stats (reporters (info app_world 0 ts msg) ! 0)) =
   Panel ''[bold blue]Report Summary[/bold blue]'' [(''Level'', ''cyan''), (''Count'', ''green'')]
     [(''DEBUG'', ''[green]0[/green]''), (''INFO'', ''[green]1[/green]''),
      (''WARNING'', ''[bold yellow]0[/bold yellow]''), (''ERROR'', ''[bold red]0[/bold red]''),
      (''CRITICAL'', ''[bold red]0[/bold red]'')]"
  by (simp_all add: app_world_info app_world_fields summary_panel_def table_row_def
      count_style_def upper_def upper_char_def str_int_def digit_char_def)

theorem with_reporter_reports_once_witness:
  "snd (with_reporter app_world 0 passing_body) =
     snd (report (info app_world 0 ''09:00:00'' ''Test message'') 0 ''Report Summary'') \<and>
   consoles (snd (with_reporter app_world 0 passing_body)) ! 0 =
     [LogRender \<lparr>rec_name = ''app'', levelno = 20, levelname = ''INFO'',
        message = ''Test message'', asctime = ''09:00:00'', exc_text = None\<rparr> True False,
      Panel ''[bold blue]Report Summary[/bold blue]'' [(''Level'', ''cyan''), (''Count'', ''green'')]
        [(''DEBUG'', ''[green]0[/green]''), (''INFO'', ''[green]1[/green]''),
         (''WARNING'', ''[bold yellow]0[/bold yellow]''), (''ERROR'', ''[bold red]0[/bold red]''),
         (''CRITICAL'', ''[bold red]0[/bold red]'')]]"
proof -
  let ?w1 = "info app_world 0 ''09:00:00'' ''Test message''"
  have body: "passing_body app_world 0 = (None, ?w1)"
    by (simp add: passing_body_def)
  have valid: "console (reporters ?w1 ! 0) < length (consoles ?w1)"
    by (simp add: app_world_info_store)
  note once = with_reporter_reports_once [of passing_body app_world 0 None ?w1, OF body valid]
  from once have "consoles (snd (with_reporter app_world 0 passing_body)) !
      console (reporters ?w1 ! 0) = consoles ?w1 ! console (reporters ?w1 ! 0) @
        [summary_panel ''Report Summary'' (dicts ?w1 ! stats (reporters ?w1 ! 0))]"
    by (rule conjunct2 [THEN conjunct1])
  then have "consoles (snd (with_reporter app_world 0 passing_body)) ! 0 =
     [LogRender \<lparr>rec_name = ''app'', levelno = 20, levelname = ''INFO'',
        message = ''Test message'', asctime = ''09:00:00'', exc_text = None\<rparr> True False,
      Panel ''[bold blue]Report Summary[/bold blue]'' [(''Level'', ''cyan''), (''Count'', ''green'')]
        [(''DEBUG'', ''[green]0[/green]''), (''INFO'', ''[green]1[/green]''),
         (''WARNING'', ''[bold yellow]0[/bold yellow]''), (''ERROR'', ''[bold red]0[/bold red]''),
         (''CRITICAL'', ''[bold red]0[/bold red]'')]]"
    by (simp only: app_world_info_store nth_Cons_0 append_Cons append_Nil)
  with once show ?thesis by (simp only: simp_thms)
qed

text \<open>
  Claim C10.  When the body raises, \<^verbatim>\<open>__exit__\<close> answers false, so the \<^verbatim>\<open>with\<close>
  statement ends by raising the exception of the body; before that, \<^verbatim>\<open>__exit__\<close> has
  printed the summary of the counters as the body left them.
\<close>

theorem with_reporter_propagates:
  assumes "body w self = (Some e, w1)"
  shows "fst (with_reporter w self body) = Some e \<and>
         fst (exit w1 self (Some e)) = False \<and>
         consoles (snd (with_reporter w self body)) =
           (consoles w1)[console (reporters w1 ! self) :=
              consoles w1 ! console (reporters w1 ! self) @
                [summary_panel ''Report Summary'' (dicts w1 ! stats (reporters w1 ! self))]]"
  using assms by (simp add: with_reporter_eq exit_eq report_eq)

theorem with_reporter_propagates_witness:
  "fst (with_reporter app_world 0 failing_body) = Some (Raised ''Test exception'') \<and>
   fst (exit (info app_world 0 ''09:00:00'' ''Before exception'') 0
          (Some (Raised ''Test exception''))) = False \<and>
   consoles (snd (with_reporter app_world 0 failing_body)) =
     [[LogRender \<lparr>rec_name = ''app'', levelno = 20, levelname = ''INFO'',
         message = ''Before exception'', asctime = ''09:00:00'', exc_text = None\<rparr> True False,
       Panel ''[bold blue]Report Summary[/bold blue]'' [(''Level'', ''cyan''), (''Count'', ''green'')]
         [(''DEBUG'', ''[green]0[/green]''), (''INFO'', ''[green]1[/green]''),
          (''WARNING'', ''[bold yellow]0[/bold yellow]''), (''ERROR'', ''[bold red]0[/bold red]''),
          (''CRITICAL'', ''[bold red]0[/bold red]'')]]]"
proof -
  let ?w1 = "info app_world 0 ''09:00:00'' ''Before exception''"
  have body: "failing_body app_world 0 = (Some (Raised ''Test exception''), ?w1)"
    by (simp add: failing_body_def)
  note raised = with_reporter_propagates [of failing_body app_world 0 "Raised ''Test exception''" ?w1,
      OF body]
  from raised have "consoles (snd (with_reporter app_world 0 failing_body)) =
      (consoles ?w1)[console (reporters ?w1 ! 0) :=
         consoles ?w1 ! console (reporters ?w1 ! 0) @
           [summary_panel ''Report Summary'' (dicts ?w1 ! stats (reporters ?w1 ! 0))]]"
    by (rule conjunct2 [THEN conjunct2])
  then have "consoles (snd (with_reporter app_world 0 failing_body)) =
     [[LogRender \<lparr>rec_name = ''app'', levelno = 20, levelname = ''INFO'',
         message = ''Before exception'', asctime = ''09:00:00'', exc_text = None\<rparr> True False,
       Panel ''[bold blue]Report Summary[/bold blue]'' [(''Level'', ''cyan''), (''Count'', ''green'')]
         [(''DEBUG'', ''[green]0[/green]''), (''INFO'', ''[green]1[/green]''),
          (''WARNING'', ''[bold yellow]0[/bold yellow]''), (''ERROR'', ''[bold red]0[/bold red]''),
          (''CRITICAL'', ''[bold red]0[/bold red]'')]]]"
    by (simp only: app_world_info_store nth_Cons_0 append_Cons append_Nil list_update_code)
  with raised show ?thesis by (simp only: simp_thms)
qed

subsection \<open>Records at other levels\<close>

text \<open>
  The Reporter has no method that takes a level; a record at another level reaches its
  filter through the logger it publishes as \<^verbatim>\<open>reporter.logger\<close>, with
  \<^verbatim>\<open>Logger.log(level, msg)\<close>.  The name of such a level is not a key of \<^verbatim>\<open>_stats\<close>.
\<close>

lemma unknown_levelname:
  assumes "lv \<noteq> DEBUG" "lv \<noteq> INFO" "lv \<noteq> WARNING" "lv \<noteq> ERROR" "lv \<noteq> CRITICAL"
  shows "lower (getLevelName lv) \<notin> set (map fst zero_stats)"
proof (cases "lv = NOTSET")
  case True
  then show ?thesis
    by (simp add: getLevelName_def zero_stats_def lower_def lower_char_def NOTSET_def
        DEBUG_def INFO_def WARNING_def ERROR_def CRITICAL_def)
next
  case False
  with assms have "lower (getLevelName lv) = ''level '' @ lower (str_int lv)"
    by (simp add: getLevelName_def lower_def lower_char_def)
  then show ?thesis
    by (simp add: zero_stats_def)
qed

lemma fold_count_in_unknown:
  assumes "\<forall>f \<in> set fs. k \<notin> set (map fst (ds ! stats (reporters w ! f)))"
  shows "fold (count_in w k) fs ds = ds"
  using assms
proof (induction fs)
  case Nil
  then show ?case by simp
next
  case (Cons f fs)
  then have "count_in w k f ds = ds"
    by (simp add: count_in_def bump_def)
  with Cons show ?case by simp
qed

text \<open>
  Claim C7, amended.  A record at a level other than the five is not rejected: when the
  logger is enabled for the level, every counting filter lets it pass without counting
  it, and it goes to the handlers; no counter changes and nothing is reported to the
  caller.
\<close>

theorem other_level_is_delivered_uncounted:
  assumes "well_formed w"
    and "lv \<noteq> DEBUG" "lv \<noteq> INFO" "lv \<noteq> WARNING" "lv \<noteq> ERROR" "lv \<noteq> CRITICAL"
  shows "Logger_log w l lv ts msg =
           (if isEnabledFor w l lv then callHandlers w l (makeRecord l lv ts msg) else w) \<and>
         dicts (Logger_log w l lv ts msg) = dicts w \<and>
         run_filters w (filters (get_logger w l)) (makeRecord l lv ts msg) = (True, w)"
proof -
  let ?k = "lower (getLevelName lv)"
  have "\<forall>f \<in> set (filters (get_logger w l)). ?k \<notin> set (map fst (dicts w ! stats (reporters w ! f)))"
  proof
    fix f assume "f \<in> set (filters (get_logger w l))"
    with get_logger_ok [OF assms(1), of l] have "f < length (reporters w)"
      by (simp add: logger_ok_def)
    then have "reporters w ! f \<in> set (reporters w)" by simp
    with assms(1) have "reporter_ok w (reporters w ! f)" by (rule well_formed_reporter)
    with unknown_levelname [OF assms(2-6)]
    show "?k \<notin> set (map fst (dicts w ! stats (reporters w ! f)))"
      by (simp add: reporter_ok_def)
  qed
  then have "fold (count_in w ?k) (filters (get_logger w l)) (dicts w) = dicts w"
    by (rule fold_count_in_unknown)
  then have "run_filters w (filters (get_logger w l)) (makeRecord l lv ts msg) = (True, w)"
    by (simp add: run_filters_eq makeRecord_def)
  then show ?thesis
    by (simp add: Logger_log_def Logger_handle_def)
qed

text \<open>
  Claim C7 fails.  \<^verbatim>\<open>reporter.logger.log(25, "hello")\<close> on a Reporter at INFO: the
  counting filter answers true and changes nothing, the counters stay at zero, and the
  record, named \<^verbatim>\<open>"Level 25"\<close>, is printed on the console.
\<close>

theorem other_level_not_rejected:
  "count_log_event app_world 0 (makeRecord (Named ''app'') 25 ''09:00:00'' ''hello'') =
     (True, app_world) \<and>
   snapshot (Logger_log app_world (Named ''app'') 25 ''09:00:00'' ''hello'') 0 =
     [(''debug'', 0), (''info'', 0), (''warning'', 0), (''error'', 0), (''critical'', 0)] \<and>
   consoles (Logger_log app_world (Named ''app'') 25 ''09:00:00'' ''hello'') =
     [[LogRender \<lparr>rec_name = ''app'', levelno = 25, levelname = ''Level 25'',
         message = ''hello'', asctime = ''09:00:00'', exc_text = None\<rparr> True False]]"
proof -
  have nm: "getLevelName 25 = ''Level 25''"
    by (simp add: getLevelName_def str_int_def digit_char_def CRITICAL_def ERROR_def
        WARNING_def INFO_def DEBUG_def NOTSET_def)
  have r: "makeRecord (Named ''app'') 25 ''09:00:00'' ''hello'' =
      \<lparr>rec_name = ''app'', levelno = 25, levelname = ''Level 25'',
       message = ''hello'', asctime = ''09:00:00'', exc_text = None\<rparr>"
    by (simp add: makeRecord_def nm logger_name_def)
  have k: "lower ''Level 25'' = ''level 25''"
    by (simp add: lower_def lower_char_def)
  have c: "count_log_event app_world 0 (makeRecord (Named ''app'') 25 ''09:00:00'' ''hello'') =
     (True, app_world)"
    by (simp add: r count_log_event_def k app_world_fields zero_stats_def)
  have en: "isEnabledFor app_world (Named ''app'') 25"
    by (simp add: isEnabledFor_own app_world_logger)
  have hs: "reachable_handlers app_world (Named ''app'') = [RichHandler 0 20 True False]"
    by (simp add: reachable_handlers_def chain_def candidate_parents_def get_logger_def app_world_eq)
  have w: "Logger_log app_world (Named ''app'') 25 ''09:00:00'' ''hello'' =
      app_world\<lparr>consoles := [[LogRender \<lparr>rec_name = ''app'', levelno = 25,
        levelname = ''Level 25'', message = ''hello'', asctime = ''09:00:00'', exc_text = None\<rparr> True False]]\<rparr>"
    by (simp add: Logger_log_def en Logger_handle_def app_world_logger c r [symmetric]
        callHandlers_def hs deliver_def console_print_def app_world_fields)
       (simp add: r)
  show ?thesis
    by (simp add: c w snapshot_eq app_world_fields zero_stats_def)
qed

theorem other_level_is_delivered_uncounted_witness:
  "Logger_log app_world (Named ''app'') 25 ''09:00:00'' ''hello'' =
     callHandlers app_world (Named ''app'') (makeRecord (Named ''app'') 25 ''09:00:00'' ''hello'') \<and>
   dicts (Logger_log app_world (Named ''app'') 25 ''09:00:00'' ''hello'') = dicts app_world \<and>
   run_filters app_world (filters (get_logger app_world (Named ''app'')))
     (makeRecord (Named ''app'') 25 ''09:00:00'' ''hello'') = (True, app_world)"
proof -
  have wf: "well_formed app_world"
    unfolding app_world_def by (rule well_formed_init [OF well_formed_init_world]) simp
  have en: "isEnabledFor app_world (Named ''app'') 25"
    by (simp add: isEnabledFor_own app_world_logger)
  have "(25::int) \<noteq> DEBUG" "(25::int) \<noteq> INFO" "(25::int) \<noteq> WARNING" "(25::int) \<noteq> ERROR"
    "(25::int) \<noteq> CRITICAL"
    by (simp_all add: DEBUG_def INFO_def WARNING_def ERROR_def CRITICAL_def)
  from other_level_is_delivered_uncounted [OF wf this, of "Named ''app''" "''09:00:00''" "''hello''"]
    en
  show ?thesis by simp
qed

subsection \<open>The log file\<close>

text \<open>
  The text of a file, empty when there is none; whether a handler writes to a file; and
  the handlers a logger gets from the loggers above it.
\<close>

definition file_text :: "world \<Rightarrow> string \<Rightarrow> string" where
  "file_text w f = (case files w f of Some s \<Rightarrow> s | None \<Rightarrow> [])"

fun writes_to :: "string \<Rightarrow> Handler \<Rightarrow> bool" where
  "writes_to f (FileHandler g lv) = (g = f)"
| "writes_to f (RichHandler c lv show_time show_path) = False"

definition inherited_handlers :: "world \<Rightarrow> lref \<Rightarrow> Handler list" where
  "inherited_handlers w l = concat (map (\<lambda>a. handlers (get_logger w a)) (tl (chain w l)))"

lemma reachable_handlers_split:
  "reachable_handlers w l = handlers (get_logger w l) @ inherited_handlers w l"
  unfolding reachable_handlers_def inherited_handlers_def
  by (subst chain_head) simp

lemma ancestors_cong:
  "loggerDict w' = loggerDict w \<Longrightarrow> ancestors w' nm = ancestors w nm"
proof (induction w nm rule: ancestors.induct)
  case (1 w nm)
  have a: "ancestors w nm =
      (case find (\<lambda>p. map_of (loggerDict w) p \<noteq> None) (candidate_parents nm) of
         None \<Rightarrow> [Root] | Some p \<Rightarrow> Named p # ancestors w p)"
    by (rule ancestors.simps)
  have b: "ancestors w' nm =
      (case find (\<lambda>p. map_of (loggerDict w) p \<noteq> None) (candidate_parents nm) of
         None \<Rightarrow> [Root] | Some p \<Rightarrow> Named p # ancestors w' p)"
    using ancestors.simps [of w' nm] by (simp only: 1(2))
  show ?case
  proof (cases "find (\<lambda>p. map_of (loggerDict w) p \<noteq> None) (candidate_parents nm)")
    case None
    with a b show ?thesis by simp
  next
    case (Some p)
    with 1 have "ancestors w' p = ancestors w p" by simp
    with a b Some show ?thesis by simp
  qed
qed

lemma chain_cong: "loggerDict w' = loggerDict w \<Longrightarrow> chain w' l = chain w l"
  by (cases l) (simp_all add: chain_def ancestors_cong [of w' w] del: ancestors.simps)

lemma inherited_handlers_cong:
  assumes "root w' = root w" and "loggerDict w' = loggerDict w"
  shows "inherited_handlers w' l = inherited_handlers w l"
proof -
  have "get_logger w' = get_logger w"
    using assms by (auto simp: fun_eq_iff intro: get_logger_cong)
  with assms(2) show ?thesis
    by (simp add: inherited_handlers_def chain_cong [OF assms(2)])
qed

lemma deliver_files_other:
  "\<not> writes_to f h \<Longrightarrow> files (deliver r h w) f = files w f"
  by (cases h) (simp_all add: deliver_def console_print_def)

lemma fold_deliver_files_other:
  "\<not> list_ex (writes_to f) hs \<Longrightarrow> files (fold (deliver r) hs w) f = files w f"
  by (induction hs arbitrary: w) (simp_all add: deliver_files_other)

text \<open>
  A record handled by a logger that has the handlers \<^verbatim>\<open>__init__\<close> gives it with a log
  file: the file gets the formatted record and a newline at its end, when no handler
  above writes to the file as well.
\<close>

lemma Logger_handle_file_line:
  assumes hs: "handlers (get_logger w l) = [RichHandler c lv st sp, FileHandler f lv]"
    and lv: "lv \<le> levelno r"
    and inh: "\<not> list_ex (writes_to f) (inherited_handlers w l)"
  shows "files (Logger_handle w l r) f = Some (file_text w f @ format_line r @ [CHR 0x0A])"
proof -
  let ?w = "w\<lparr>dicts := fold (count_in w (lower (levelname r))) (filters (get_logger w l)) (dicts w)\<rparr>"
  have lg: "get_logger ?w l = get_logger w l" by (rule get_logger_cong) simp_all
  have inh': "inherited_handlers ?w l = inherited_handlers w l"
    by (rule inherited_handlers_cong) simp_all
  have "Logger_handle w l r = callHandlers ?w l r"
    by (simp add: Logger_handle_def run_filters_eq)
  also have "\<dots> = fold (deliver r) (inherited_handlers w l)
      (deliver r (FileHandler f lv) (deliver r (RichHandler c lv st sp) ?w))"
    by (simp add: callHandlers_def reachable_handlers_split lg hs inh')
  finally have "files (Logger_handle w l r) f =
      files (deliver r (FileHandler f lv) (deliver r (RichHandler c lv st sp) ?w)) f"
    using inh by (simp add: fold_deliver_files_other)
  also from lv have "\<dots> = Some (file_text w f @ format_line r @ [CHR 0x0A])"
    by (simp add: deliver_def console_print_def file_text_def)
  finally show ?thesis .
qed

lemma Logger_log_file_line:
  assumes "handlers (get_logger w l) = [RichHandler c lv st sp, FileHandler f lv]"
    and "level (get_logger w l) = lv" "lv \<noteq> 0" "lv \<le> lvl" "0 < lvl"
    and "\<not> list_ex (writes_to f) (inherited_handlers w l)"
  shows "files (Logger_log w l lvl ts msg) f =
     Some (file_text w f @ format_line (makeRecord l lvl ts msg) @ [CHR 0x0A])"
proof -
  from assms(2-5) have "isEnabledFor w l lvl" by (simp add: isEnabledFor_own)
  moreover from assms(4) have "lv \<le> levelno (makeRecord l lvl ts msg)"
    by (simp add: makeRecord_def)
  ultimately show ?thesis
    using Logger_handle_file_line [OF assms(1) _ assms(6), of "makeRecord l lvl ts msg"]
    by (simp add: Logger_log_def)
qed





lemma calls_fields [simp]:
  "root (calls w self cs) = root w"
  "loggerDict (calls w self cs) = loggerDict w"
  "reporters (calls w self cs) = reporters w"
  "unopenable (calls w self cs) = unopenable w"
  "file_of (calls w self cs) = file_of w"
proof -
  have "root (calls w self cs) = root w \<and> loggerDict (calls w self cs) = loggerDict w \<and>
      reporters (calls w self cs) = reporters w \<and> unopenable (calls w self cs) = unopenable w \<and>
      file_of (calls w self cs) = file_of w"
    by (induction cs arbitrary: w) (auto simp: call_eq)
  then show "root (calls w self cs) = root w" "loggerDict (calls w self cs) = loggerDict w"
    "reporters (calls w self cs) = reporters w" "unopenable (calls w self cs) = unopenable w"
    "file_of (calls w self cs) = file_of w"
    by simp_all
qed

text \<open>
  Leveled calls, on this Reporter or any other, leave every logger with the level and
  the handlers it had, and every Reporter object as it was.
\<close>

lemma calls_keep_loggers:
  "get_logger (calls w j cs) l = get_logger w l"
  "inherited_handlers (calls w j cs) l = inherited_handlers w l"
  "reporters (calls w j cs) ! i = reporters w ! i"
proof -
  show "get_logger (calls w j cs) l = get_logger w l" by (rule get_logger_cong) simp_all
  show "inherited_handlers (calls w j cs) l = inherited_handlers w l"
    by (rule inherited_handlers_cong) simp_all
  show "reporters (calls w j cs) ! i = reporters w ! i" by simp
qed

lemma init_with_file:
  assumes p: "p \<noteq> []" "file_of w p \<notin> set (unopenable w)"
    and init: "init w nm lv con show_time show_path True (Some p) = (res, w1)"
  shows "res = Inr (length (reporters w))"
    and "files w1 (file_of w p) = Some (file_text w (file_of w p))"
    and "\<exists>c. handlers (get_logger w1 (getLogger nm)) =
           [RichHandler c lv show_time show_path, FileHandler (file_of w p) lv]"
    and "level (get_logger w1 (getLogger nm)) = lv"
    and "logger (reporters w1 ! length (reporters w)) = getLogger nm"
proof -
  obtain c w0 where cw: "console_or_new w con = (c, w0)"
    by (cases "console_or_new w con")
  note f0 = console_or_new_fields [OF cw]
  let ?w6 = "configured w0 nm lv c show_time show_path"
  from p(2) f0 have "file_of ?w6 p \<notin> set (unopenable ?w6)" by simp
  then obtain w7 where o: "open_append ?w6 p = Inr w7"
    using open_append_Inr [of ?w6 p] by auto
  note f7 = open_append_fields [OF o]
  from f7 f0 have fo: "file_of w7 p = file_of w p" by simp
  from init p(1) o have res: "res = Inr (length (reporters w0))"
    and w1: "w1 = addFilter (addHandler w7 (getLogger nm) (FileHandler (file_of w p) lv))
        (getLogger nm) (length (reporters w0))"
    by (simp_all add: init_unfold cw fo)
  from res f0 show "res = Inr (length (reporters w))" by simp
  from open_append_files [OF o] f0
  show "files w1 (file_of w p) = Some (file_text w (file_of w p))"
    by (simp add: w1 file_text_def)
  have lg: "get_logger w1 (getLogger nm) =
      \<lparr>level = lv,
       handlers = [RichHandler c lv show_time show_path, FileHandler (file_of w p) lv],
       filters = (if length (reporters w0) \<in> set (filters (get_logger w0 (getLogger nm)))
          then filters (get_logger w0 (getLogger nm))
          else filters (get_logger w0 (getLogger nm)) @ [length (reporters w0)])\<rparr>"
    by (simp add: w1 addFilter_logger addHandler_logger open_append_logger [OF o]
        configured_logger)
  then show "\<exists>c. handlers (get_logger w1 (getLogger nm)) =
           [RichHandler c lv show_time show_path, FileHandler (file_of w p) lv]"
    by simp
  from lg show "level (get_logger w1 (getLogger nm)) = lv" by simp
  from f7 f0 show "logger (reporters w1 ! length (reporters w)) = getLogger nm"
    by (simp add: w1)
qed


text \<open>
  In the fresh interpreter the paths \<^verbatim>\<open>app.log\<close> and \<^verbatim>\<open>./app.log\<close> name one file,
  \<^verbatim>\<open>/home/user/app.log\<close>.
\<close>

lemma abspath_app_log:
  "abspath ''/home/user'' ''app.log'' = ''/home/user/app.log''"
  "abspath ''/home/user'' ''./app.log'' = ''/home/user/app.log''"
  by (simp_all add: abspath_def path_join_def normpath_def norm_step_def)

lemma init_world_file_of:
  "file_of init_world ''app.log'' = ''/home/user/app.log''"
  "file_of init_world ''./app.log'' = ''/home/user/app.log''"
  by (simp_all add: init_world_def abspath_app_log)

definition file_world :: world where
  "file_world = snd (init init_world ''app'' INFO None True False True (Some ''app.log''))"

lemma file_world_loggers:
  "loggerDict file_world = [(''app'', get_logger file_world (Named ''app''))]"
  "root file_world = root init_world"
  by (simp_all add: file_world_def init_unfold console_or_new_def new_console_def
      init_world_def abspath_app_log configured_def setLevel_def clear_handlers_def addHandler_def
      addFilter_def open_append_def get_logger_def set_logger_def getLogger_def
      new_logger_def Let_def)

lemma file_world_inherits_nothing: "inherited_handlers file_world (Named ''app'') = []"
  using file_world_loggers
  by (simp add: inherited_handlers_def chain_def candidate_parents_def get_logger_def
      init_world_def abspath_app_log)




text \<open>
  Where the conditions of the amended claim are not met.  First, a second Reporter of the
  same name, constructed later without a log file: \<^verbatim>\<open>__init__\<close> clears the handlers of
  the shared logger, and \<^verbatim>\<open>info\<close> on the first Reporter is counted but no longer written
  to the file.
\<close>

definition taken_over_world :: world where
  "taken_over_world = snd (init file_world ''app'' INFO None True False False None)"

lemma taken_over_world_eq:
  "taken_over_world =
     \<lparr>root = \<lparr>level = 30, handlers = [], filters = []\<rparr>,
      loggerDict =
        [(''app'', \<lparr>level = 20, handlers = [RichHandler 1 20 True False], filters = [0, 1]\<rparr>)],
      reporters =
        [\<lparr>name = ''app'', console = 0, stats = 0, logger = Named ''app''\<rparr>,
         \<lparr>name = ''app'', console = 1, stats = 1, logger = Named ''app''\<rparr>],
      dicts = [zero_stats, zero_stats], consoles = [[], []],
      files = [''/home/user/app.log'' \<mapsto> []], unopenable = [], file_of = abspath ''/home/user''\<rparr>"
  by (simp add: taken_over_world_def file_world_def init_unfold console_or_new_def
      new_console_def init_world_def abspath_app_log configured_def setLevel_def clear_handlers_def
      addHandler_def addFilter_def open_append_def get_logger_def set_logger_def getLogger_def
      new_logger_def Let_def INFO_def WARNING_def NOTSET_def)

lemma later_reporter_takes_the_logger:
  "files (info taken_over_world 0 ''09:00:00'' ''hello'') ''/home/user/app.log'' = Some []"
  "snapshot (info taken_over_world 0 ''09:00:00'' ''hello'') 0 =
     [(''debug'', 0), (''info'', 1), (''warning'', 0), (''error'', 0), (''critical'', 0)]"
proof -
  have lg: "get_logger taken_over_world (Named ''app'') =
      \<lparr>level = 20, handlers = [RichHandler 1 20 True False], filters = [0, 1]\<rparr>"
    by (simp add: taken_over_world_eq get_logger_def)
  have en: "isEnabledFor taken_over_world (Named ''app'') 20"
    by (simp add: isEnabledFor_own lg)
  have hs: "reachable_handlers (taken_over_world\<lparr>dicts := ds\<rparr>) (Named ''app'') =
      [RichHandler 1 20 True False]" for ds
    by (simp add: reachable_handlers_def chain_def candidate_parents_def get_logger_def
        taken_over_world_eq)
  have own: "logger (reporters taken_over_world ! 0) = Named ''app''"
    by (simp add: taken_over_world_eq)
  show "files (info taken_over_world 0 ''09:00:00'' ''hello'') ''/home/user/app.log'' = Some []"
    unfolding info_def own
    by (simp add: Logger_log_def en Logger_handle_def run_filters_eq INFO_def
        callHandlers_def hs deliver_def console_print_def makeRecord_def
        taken_over_world_eq [THEN arg_cong, of files])
  have "dicts (info taken_over_world 0 ''09:00:00'' ''hello'') ! 0 =
     [(''debug'', 0), (''info'', 1), (''warning'', 0), (''error'', 0), (''critical'', 0)]"
    unfolding info_def own
    by (simp add: Logger_log_dicts taken_over_world_eq [THEN arg_cong, of reporters]
        taken_over_world_eq [THEN arg_cong, of dicts] en [unfolded INFO_def [symmetric]] lg
        method_levelname [of Info, simplified] count_in_def bump_def increment_def
        zero_stats_def)
  then show "snapshot (info taken_over_world 0 ''09:00:00'' ''hello'') 0 =
     [(''debug'', 0), (''info'', 1), (''warning'', 0), (''error'', 0), (''critical'', 0)]"
    by (simp add: snapshot_eq info_def taken_over_world_eq [THEN arg_cong, of reporters])
qed

text \<open>
  Second, a Reporter named \<^verbatim>\<open>"a"\<close> logging to \<^verbatim>\<open>app.log\<close> and then one named \<^verbatim>\<open>"a.b"\<close>
  logging to \<^verbatim>\<open>./app.log\<close>, in a fresh interpreter.  The two paths name one file, the
  logger \<^verbatim>\<open>a\<close> is the parent of \<^verbatim>\<open>a.b\<close>, and a record of the second Reporter goes to the
  file handlers of both: it lands in the file twice.
\<close>

definition parent_child_world :: world where
  "parent_child_world =
     snd (init (snd (init init_world
                       ''a'' INFO None True False True (Some ''app.log'')))
            ''a.b'' INFO None True False True (Some ''./app.log''))"

lemma parent_child_world_eq:
  "parent_child_world =
     \<lparr>root = \<lparr>level = 30, handlers = [], filters = []\<rparr>,
      loggerDict =
        [(''a'', \<lparr>level = 20,
            handlers = [RichHandler 0 20 True False, FileHandler ''/home/user/app.log'' 20], filters = [0]\<rparr>),
         (''a.b'', \<lparr>level = 20,
            handlers = [RichHandler 1 20 True False, FileHandler ''/home/user/app.log'' 20], filters = [1]\<rparr>)],
      reporters =
        [\<lparr>name = ''a'', console = 0, stats = 0, logger = Named ''a''\<rparr>,
         \<lparr>name = ''a.b'', console = 1, stats = 1, logger = Named ''a.b''\<rparr>],
      dicts = [zero_stats, zero_stats], consoles = [[], []],
      files = [''/home/user/app.log'' \<mapsto> []], unopenable = [], file_of = abspath ''/home/user''\<rparr>"
  by (simp add: parent_child_world_def init_unfold console_or_new_def new_console_def
      init_world_def abspath_app_log configured_def setLevel_def clear_handlers_def addHandler_def addFilter_def
      open_append_def get_logger_def set_logger_def getLogger_def new_logger_def Let_def
      INFO_def WARNING_def NOTSET_def)

lemma child_record_written_twice:
  "files (info parent_child_world 1 ''09:00:00'' ''hello'') ''/home/user/app.log'' =
     Some (''09:00:00 - a.b - INFO - hello'' @ [CHR 0x0A] @
           ''09:00:00 - a.b - INFO - hello'' @ [CHR 0x0A])"
proof -
  have lg: "get_logger parent_child_world (Named ''a.b'') =
      \<lparr>level = 20, handlers = [RichHandler 1 20 True False, FileHandler ''/home/user/app.log'' 20],
       filters = [1]\<rparr>"
    by (simp add: parent_child_world_eq get_logger_def)
  have en: "isEnabledFor parent_child_world (Named ''a.b'') 20"
    by (simp add: isEnabledFor_own lg)
  have hs: "reachable_handlers (parent_child_world\<lparr>dicts := ds\<rparr>) (Named ''a.b'') =
      [RichHandler 1 20 True False, FileHandler ''/home/user/app.log'' 20,
       RichHandler 0 20 True False, FileHandler ''/home/user/app.log'' 20]" for ds
    by (simp add: reachable_handlers_def chain_def candidate_parents_def get_logger_def
        parent_child_world_eq)
  have own: "logger (reporters parent_child_world ! 1) = Named ''a.b''"
    by (simp add: parent_child_world_eq)
  show ?thesis
    unfolding info_def own
    by (simp add: Logger_log_def en Logger_handle_def run_filters_eq INFO_def
        callHandlers_def hs deliver_def console_print_def makeRecord_def format_line_def
        logger_name_def getLevelName_def CRITICAL_def ERROR_def WARNING_def
        parent_child_world_eq [THEN arg_cong, of files])
qed

text \<open>Third, a message of two lines: the record is one write and two lines of the file.\<close>

lemma message_with_newline_is_two_lines:
  "files (info file_world 0 ''09:00:00'' (''first'' @ [CHR 0x0A] @ ''second'')) ''/home/user/app.log'' =
     Some (''09:00:00 - app - INFO - first'' @ [CHR 0x0A] @ ''second'' @ [CHR 0x0A])"
proof -
  have p: "''app.log'' \<noteq> []" "file_of init_world ''app.log'' \<notin> set (unopenable init_world)"
    by (simp_all add: init_world_def abspath_app_log)
  have i: "init init_world ''app'' INFO None True False True (Some ''app.log'') =
      (fst (init init_world ''app'' INFO None True False True (Some ''app.log'')), file_world)"
    by (simp add: file_world_def)
  have fo: "file_of init_world ''app.log'' = ''/home/user/app.log''" by (simp add: init_world_def abspath_app_log)
  note f = init_with_file [OF p i, unfolded fo]
  from f(3) obtain c where hs: "handlers (get_logger file_world (Named ''app'')) =
      [RichHandler c INFO True False, FileHandler ''/home/user/app.log'' INFO]"
    by (auto simp: getLogger_def)
  from f(4) have lv: "level (get_logger file_world (Named ''app'')) = INFO"
    by (simp add: getLogger_def)
  from f(5) have own: "logger (reporters file_world ! 0) = Named ''app''"
    by (simp add: getLogger_def init_world_def abspath_app_log)
  from f(2) have empty: "file_text file_world ''/home/user/app.log'' = []"
    by (simp add: file_text_def init_world_def abspath_app_log)
  have "files (Logger_log file_world (Named ''app'') INFO ''09:00:00''
        (''first'' @ [CHR 0x0A] @ ''second'')) ''/home/user/app.log'' =
      Some (file_text file_world ''/home/user/app.log'' @
        format_line (makeRecord (Named ''app'') INFO ''09:00:00''
          (''first'' @ [CHR 0x0A] @ ''second'')) @ [CHR 0x0A])"
    using hs lv
    by (rule Logger_log_file_line) (simp_all add: INFO_def file_world_inherits_nothing)
  then show ?thesis
    by (simp add: info_def own empty format_line_def makeRecord_def logger_name_def
        getLevelName_def INFO_def CRITICAL_def ERROR_def WARNING_def)
qed

end
